theory Spec2Isabelle
  imports Main "HOL-Library.AList" "HOL-Library.Char_ord" "HOL-Library.List_Lexorder"
begin

section \<open>Python values used by arxiv-daily.py\<close>

text \<open>
  A Python \<open>str\<close> is modelled as a \<^typ>\<open>string\<close>, each \<^typ>\<open>char\<close> standing for the
  code point of the same number (so the model covers the strings over code points
  0..255). A \<open>dict\<close> is an association list in insertion order; \<open>d[k] = v\<close> is
  \<^const>\<open>AList.update\<close> (an existing key keeps its place, a new key goes last) and
  \<open>del d[k]\<close> is \<^const>\<open>AList.delete\<close>. Exceptions are values of type \<open>error\<close>.
\<close>

datatype error =
  IndexError | KeyError | FileNotFoundError | JSONDecodeError | OverflowError | ProviderError

definition newline :: char where
  "newline = CHR 0x0A"

definition isspace :: "char \<Rightarrow> bool" where
  \<comment> \<open>\<open>str.isspace\<close> on one character: the white space of the first 256 code points.\<close>
  "isspace c = (of_char c \<in> {9, 10, 11, 12, 13, 28, 29, 30, 31, 32, 133, 160 :: nat})"

definition strip :: "string \<Rightarrow> string" where
  \<comment> \<open>\<open>s.strip()\<close>\<close>
  "strip s = rev (dropWhile isspace (rev (dropWhile isspace s)))"

fun join :: "string \<Rightarrow> string list \<Rightarrow> string" where
  \<comment> \<open>\<open>sep.join(xs)\<close>\<close>
  "join sep [] = []"
| "join sep [x] = x"
| "join sep (x # y # ys) = x @ sep @ join sep (y # ys)"

fun split :: "char \<Rightarrow> string \<Rightarrow> string list" where
  \<comment> \<open>\<open>s.split(c)\<close> for a one-character separator\<close>
  "split sep [] = [[]]"
| "split sep (c # cs) =
     (if c = sep then [] # split sep cs
      else (case split sep cs of p # ps \<Rightarrow> (c # p) # ps | [] \<Rightarrow> [[c]]))"

function replace :: "string \<Rightarrow> string \<Rightarrow> string \<Rightarrow> string" where
  \<comment> \<open>\<open>s.replace(old, new)\<close> for a non-empty \<open>old\<close>: leftmost matches, not overlapping\<close>
  "replace old new [] = []"
| "replace old new (c # cs) =
     (if old \<noteq> [] \<and> take (length old) (c # cs) = old
      then new @ replace old new (drop (length old) (c # cs))
      else c # replace old new cs)"
  by pat_completeness auto
termination
  by (relation "measure (\<lambda>(old, new, s). length s)") auto

fun find_str :: "string \<Rightarrow> char \<Rightarrow> int" where
  \<comment> \<open>\<open>s.find(c)\<close>: the index of the first \<open>c\<close>, or -1\<close>
  "find_str [] x = -1"
| "find_str (c # cs) x =
     (if c = x then 0 else (let i = find_str cs x in if i = -1 then -1 else i + 1))"

definition index_last :: "'a list \<Rightarrow> error + 'a" where
  \<comment> \<open>\<open>xs[-1]\<close>, which raises IndexError on an empty list\<close>
  "index_last xs = (case rev xs of [] \<Rightarrow> Inl IndexError | x # _ \<Rightarrow> Inr x)"

section \<open>Dates\<close>

text \<open>
  A \<open>datetime.date\<close>. Python only builds dates with a year in 1..9999, a month in 1..12
  and a day the month has (\<open>valid_date\<close>); the constructor raises ValueError otherwise.
\<close>

record date =
  year :: nat
  month :: nat
  day :: nat

definition is_leap :: "nat \<Rightarrow> bool" where
  "is_leap y = (y mod 4 = 0 \<and> (y mod 100 \<noteq> 0 \<or> y mod 400 = 0))"

definition days_in_month :: "nat \<Rightarrow> nat \<Rightarrow> nat" where
  "days_in_month y m =
     (if m = 2 then (if is_leap y then 29 else 28)
      else if m = 4 \<or> m = 6 \<or> m = 9 \<or> m = 11 then 30 else 31)"

definition valid_date :: "date \<Rightarrow> bool" where
  "valid_date d =
     (1 \<le> year d \<and> year d \<le> 9999 \<and> 1 \<le> month d \<and> month d \<le> 12 \<and>
      1 \<le> day d \<and> day d \<le> days_in_month (year d) (month d))"

definition days_before_year :: "nat \<Rightarrow> nat" where
  "days_before_year y = (y - 1) * 365 + (y - 1) div 4 - (y - 1) div 100 + (y - 1) div 400"

definition days_before_month :: "nat \<Rightarrow> nat \<Rightarrow> nat" where
  "days_before_month y m = sum_list (map (days_in_month y) [1..<m])"

definition toordinal :: "date \<Rightarrow> int" where
  \<comment> \<open>\<open>date.toordinal()\<close>: day 1 is 0001-01-01. Dates compare as their ordinals do.\<close>
  "toordinal d = int (days_before_year (year d) + days_before_month (year d) (month d) + day d)"

definition digit_char :: "nat \<Rightarrow> char" where
  "digit_char n = char_of (48 + n mod 10)"

definition isoformat :: "date \<Rightarrow> string" where
  \<comment> \<open>\<open>str(d)\<close>, that is \<open>"%04d-%02d-%02d" % (year, month, day)\<close>, for fields in range\<close>
  "isoformat d =
     [digit_char (year d div 1000), digit_char (year d div 100),
      digit_char (year d div 10), digit_char (year d), CHR ''-'',
      digit_char (month d div 10), digit_char (month d), CHR ''-'',
      digit_char (day d div 10), digit_char (day d)]"

section \<open>Entry formatter and fetcher\<close>

definition get_authors :: "string list \<Rightarrow> bool \<Rightarrow> error + string" where
  \<comment> \<open>an author is modelled by its name, which is what \<open>str(author)\<close> and the row's
      \<open>format\<close> print\<close>
  "get_authors authors last_author =
     (if \<not> last_author then Inr (join '', '' authors)
      else if authors \<noteq> [] then index_last authors else Inr [])"

definition paper_key :: "string \<Rightarrow> string" where
  \<comment> \<open>lines 193-198 of \<open>get_daily_papers\<close>: cut the id at its first \<open>v\<close>\<close>
  "paper_key paper_id =
     (let ver_pos = find_str paper_id CHR ''v''
      in if ver_pos = -1 then paper_id else take (nat ver_pos) paper_id)"

text \<open>
  One result of the provider (\<open>arxiv.Result\<close>): \<open>short_id\<close> is \<open>get_short_id()\<close>,
  \<open>published\<close> is \<open>published.date()\<close>, \<open>comment\<close> may be \<open>None\<close>.
\<close>

record result =
  short_id :: string
  title :: string
  authors :: "string list"
  published :: date
  categories :: "string list"
  comment :: "string option"
  summary :: string

type_synonym papers = "(string \<times> string) list"

definition arxiv_url :: string where
  "arxiv_url = ''http://arxiv.org/''"

definition categories_str :: "string list \<Rightarrow> string" where
  "categories_str cats = (if cats \<noteq> [] then join ''; '' cats else [])"

definition comments_str :: "string option \<Rightarrow> string" where
  "comments_str c = (case c of None \<Rightarrow> [] | Some t \<Rightarrow> t)"

definition abstract_str :: "bool \<Rightarrow> string \<Rightarrow> string" where
  "abstract_str show_abstract summ =
     (let abstract = (if show_abstract then summ else [])
      in if abstract \<noteq> [] then strip (replace [newline] '' '' abstract) else [])"

definition format_row ::
  "bool \<Rightarrow> date \<Rightarrow> string \<Rightarrow> string \<Rightarrow> string \<Rightarrow> string \<Rightarrow> string \<Rightarrow> string \<Rightarrow> string \<Rightarrow> string"
  where
  \<comment> \<open>the two \<open>format\<close> calls of lines 212-219\<close>
  "format_row show_abstract paper_date paper_title paper_last_author cats key url comms abstr =
     ''|**'' @ isoformat paper_date @ ''**|**'' @ paper_title @ ''**|'' @ paper_last_author @
     ''|'' @ cats @ ''|['' @ key @ '']('' @ url @ '')|'' @ comms @ ''|'' @
     (if show_abstract then abstr @ ''|'' else []) @ [newline]"

definition format_entry :: "bool \<Rightarrow> result \<Rightarrow> error + (string \<times> string)" where
  \<comment> \<open>the body of the loop over the results: the entry key and its formatted row\<close>
  "format_entry show_abstract r =
     (case get_authors (authors r) False of Inl e \<Rightarrow> Inl e | Inr paper_authors \<Rightarrow>
      (case get_authors (authors r) True of Inl e \<Rightarrow> Inl e | Inr paper_last_author \<Rightarrow>
        (let key = paper_key (short_id r);
             paper_url = arxiv_url @ ''abs/'' @ key
         in Inr (key, format_row show_abstract (published r) (title r) paper_last_author
                   (categories_str (categories r)) key paper_url (comments_str (comment r))
                   (abstract_str show_abstract (summary r))))))"

text \<open>
  What \<open>client.results(search)\<close> does when it is iterated: it yields a result and goes
  on, ends, or raises (a provider error can come before the first result or after
  any number of them, as the client fetches the results page by page).
\<close>

datatype feed = Done | Raise | Yield result feed

fun fetch_loop :: "bool \<Rightarrow> feed \<Rightarrow> papers \<times> int \<Rightarrow> error option \<times> papers \<times> int" where
  \<comment> \<open>the \<open>try\<close> body: the state is \<open>(content, papers_found)\<close>; the first component of
      the value is the exception that left the body, if any\<close>
  "fetch_loop show_abstract Done st = (None, st)"
| "fetch_loop show_abstract Raise st = (Some ProviderError, st)"
| "fetch_loop show_abstract (Yield r rest) (content, papers_found) =
     (case format_entry show_abstract r of
        Inl e \<Rightarrow> (Some e, content, papers_found)
      | Inr (key, row) \<Rightarrow>
          fetch_loop show_abstract rest (AList.update key row content, papers_found + 1))"

definition get_daily_papers :: "string \<Rightarrow> feed \<Rightarrow> bool \<Rightarrow> (string \<times> papers) list" where
  \<comment> \<open>the query, \<open>max_results\<close> and the date range only choose the feed. The handler
      \<open>except Exception\<close> logs and resets \<open>papers_found\<close>; \<open>content\<close> is left as the
      loop had it.\<close>
  "get_daily_papers topic results show_abstract =
     (case fetch_loop show_abstract results ([], 0) of
        (None, content, papers_found) \<Rightarrow> [(topic, content)]
      | (Some e, content, papers_found) \<Rightarrow>
          (let papers_found = (0 :: int) in [(topic, content)]))"

section \<open>The persisted store\<close>

text \<open>
  The store maps a topic to its entries, and an entry key to its formatted row. A file
  is absent, empty, holds the JSON text of a store (\<open>json.dump\<close> writes it and
  \<open>json.loads\<close> reads the same store back, keys in the order written), or holds
  something \<open>json.loads\<close> rejects.
\<close>

type_synonym store = "(string \<times> papers) list"

datatype file_content = Empty_File | Json store | Not_Json

type_synonym files = "string \<Rightarrow> file_content option"

definition len :: "'a list \<Rightarrow> int" where
  "len xs = int (length xs)"

definition count_papers :: "store \<Rightarrow> int" where
  \<comment> \<open>\<open>sum(len(papers) for papers in m.values())\<close>\<close>
  "count_papers m = sum_list (map (\<lambda>(keyword, papers). len papers) m)"

definition dict_update :: "('k \<times> 'v) list \<Rightarrow> ('k \<times> 'v) list \<Rightarrow> ('k \<times> 'v) list" where
  \<comment> \<open>\<open>d.update(other)\<close>\<close>
  "dict_update d other = fold (\<lambda>(k, v). AList.update k v) other d"

section \<open>Store reconciler\<close>

fun remove_keywords ::
  "string list \<Rightarrow> store \<Rightarrow> (string \<times> int) list \<Rightarrow> error + (store \<times> (string \<times> int) list)"
  where
  \<comment> \<open>the loop of \<open>remove_old_keywords\<close>; \<open>json_data[keyword]\<close> raises KeyError on a
      missing key\<close>
  "remove_keywords [] json_data removed_keywords = Inr (json_data, removed_keywords)"
| "remove_keywords (keyword # rest) json_data removed_keywords =
     (case map_of json_data keyword of
        None \<Rightarrow> Inl KeyError
      | Some papers \<Rightarrow>
          remove_keywords rest (AList.delete keyword json_data)
            (AList.update keyword (len papers) removed_keywords))"

definition remove_old_keywords ::
  "store \<Rightarrow> (string \<times> string) list \<Rightarrow> error + (store \<times> (string \<times> int) list)" where
  "remove_old_keywords json_data current_keywords =
     (let json_keywords = map fst json_data;
          current_keyword_names = map fst current_keywords;
          keywords_to_remove = filter (\<lambda>kw. kw \<notin> set current_keyword_names) json_keywords
      in remove_keywords keywords_to_remove json_data [])"

fun merge_keyword ::
  "bool \<Rightarrow> string \<times> papers \<Rightarrow> store \<times> int \<times> (string \<times> int) list \<Rightarrow>
   store \<times> int \<times> (string \<times> int) list" where
  \<comment> \<open>one pass of the inner loop of \<open>update_json_file\<close>; the state is
      \<open>(json_data, new_papers_count, category_updates)\<close>\<close>
  "merge_keyword clear_existing (keyword, papers) (json_data, new_papers_count, category_updates) =
     (let new_papers_count = new_papers_count + len papers
      in case map_of json_data keyword of
           Some existing \<Rightarrow>
             if clear_existing
             then (AList.update keyword papers json_data, new_papers_count,
                   AList.update keyword (len papers) category_updates)
             else
               (let before_count = len existing;
                    merged = dict_update existing papers;
                    after_count = len merged;
                    added_count = after_count - before_count
                in (AList.update keyword merged json_data, new_papers_count,
                    if added_count > 0 then AList.update keyword added_count category_updates
                    else category_updates))
         | None \<Rightarrow>
             (AList.update keyword papers json_data, new_papers_count,
              AList.update keyword (len papers) category_updates))"

definition merge_batch ::
  "bool \<Rightarrow> store list \<Rightarrow> store \<times> int \<times> (string \<times> int) list \<Rightarrow>
   store \<times> int \<times> (string \<times> int) list" where
  \<comment> \<open>\<open>for data in data_dict: for keyword in data.keys(): ...\<close>\<close>
  "merge_batch clear_existing data_dict st =
     fold (\<lambda>data st. fold (merge_keyword clear_existing) data st) data_dict st"

definition update_json_file ::
  "files \<Rightarrow> string \<Rightarrow> store list \<Rightarrow> (string \<times> string) list \<Rightarrow> bool \<Rightarrow>
   error + ((int \<times> int \<times> int \<times> (string \<times> int) list) \<times> files)" where
  \<comment> \<open>the value is \<open>(existing_count, updated_count, new_papers_count, category_updates)\<close>
      and the files after the call. A topic of the batch that is new to the store is stored
      as the batch's own dict, so a later element with the same topic also updates that
      dict of the caller. The value and the file do not depend on it when no dict occurs
      twice in the batch, as when each element comes from its own \<open>get_daily_papers\<close>.\<close>
  "update_json_file fs filename data_dict current_keywords clear_existing =
     (case (if clear_existing then Inr ([], 0)
            else (case fs filename of
                    None \<Rightarrow> Inl FileNotFoundError
                  | Some Empty_File \<Rightarrow> Inr ([], 0)
                  | Some Not_Json \<Rightarrow> Inl JSONDecodeError
                  | Some (Json m) \<Rightarrow> Inr (m, count_papers m))) of
        Inl e \<Rightarrow> Inl e
      | Inr (m, existing_count) \<Rightarrow>
          (case (if \<not> clear_existing \<and> existing_count > 0
                 then map_sum id fst (remove_old_keywords m current_keywords)
                 else Inr m) of
             Inl e \<Rightarrow> Inl e
           | Inr json_data \<Rightarrow>
               (case merge_batch clear_existing data_dict (json_data, 0, []) of
                  (json_data, new_papers_count, category_updates) \<Rightarrow>
                    Inr ((existing_count, count_papers json_data, new_papers_count,
                          category_updates),
                         fs(filename \<mapsto> Json json_data)))))"

section \<open>Retention pruner\<close>

definition is_digit :: "char \<Rightarrow> bool" where
  "is_digit c = (48 \<le> (of_char c :: nat) \<and> (of_char c :: nat) \<le> 57)"

definition digit_val :: "char \<Rightarrow> nat" where
  "digit_val c = of_char c - 48"

text \<open>
  \<open>datetime.strptime(s, '%Y-%m-%d')\<close> matches \<open>s\<close> against the regular expression
  \<open>(\d\d\d\d)-(1[0-2]|0[1-9]|[1-9])-(3[0-1]|[1-2]\d|0[1-9]|[1-9]| [1-9])\<close>, raises
  ValueError when it does not match or when text is left over, and then builds the date,
  which raises ValueError when there is no such day. A month is followed by \<open>-\<close> and
  the day ends the expression, so the first alternative that matches is the one taken.
\<close>

fun parse_Y :: "string \<Rightarrow> (nat \<times> string) option" where
  "parse_Y (a # b # c # d # rest) =
     (if is_digit a \<and> is_digit b \<and> is_digit c \<and> is_digit d
      then Some (1000 * digit_val a + 100 * digit_val b + 10 * digit_val c + digit_val d, rest)
      else None)"
| "parse_Y _ = None"

definition in_range :: "char \<Rightarrow> char \<Rightarrow> char \<Rightarrow> bool" where
  "in_range lo hi c = (lo \<le> c \<and> c \<le> hi)"

fun parse_m :: "string \<Rightarrow> (nat \<times> string) option" where
  "parse_m [] = None"
| "parse_m (a # rest) =
     (case (if a = CHR ''1'' then
              (case rest of b # rest' \<Rightarrow>
                 if in_range CHR ''0'' CHR ''2'' b then Some (10 + digit_val b, rest') else None
               | [] \<Rightarrow> None)
            else if a = CHR ''0'' then
              (case rest of b # rest' \<Rightarrow>
                 if in_range CHR ''1'' CHR ''9'' b then Some (digit_val b, rest') else None
               | [] \<Rightarrow> None)
            else None) of
        Some r \<Rightarrow> Some r
      | None \<Rightarrow> if in_range CHR ''1'' CHR ''9'' a then Some (digit_val a, rest) else None)"

fun parse_d :: "string \<Rightarrow> (nat \<times> string) option" where
  "parse_d [] = None"
| "parse_d (a # rest) =
     (case (case rest of
              b # rest' \<Rightarrow>
                if a = CHR ''3'' \<and> in_range CHR ''0'' CHR ''1'' b
                then Some (30 + digit_val b, rest')
                else if in_range CHR ''1'' CHR ''2'' a \<and> is_digit b
                then Some (10 * digit_val a + digit_val b, rest')
                else if a = CHR ''0'' \<and> in_range CHR ''1'' CHR ''9'' b
                then Some (digit_val b, rest')
                else None
            | [] \<Rightarrow> None) of
        Some r \<Rightarrow> Some r
      | None \<Rightarrow>
          if in_range CHR ''1'' CHR ''9'' a then Some (digit_val a, rest)
          else (case rest of
                  b # rest' \<Rightarrow>
                    if a = CHR '' '' \<and> in_range CHR ''1'' CHR ''9'' b
                    then Some (digit_val b, rest') else None
                | [] \<Rightarrow> None))"

fun expect :: "char \<Rightarrow> string \<Rightarrow> string option" where
  "expect x [] = None"
| "expect x (c # cs) = (if c = x then Some cs else None)"

definition strptime :: "string \<Rightarrow> date option" where
  \<comment> \<open>\<open>datetime.datetime.strptime(s, '%Y-%m-%d').date()\<close>; \<open>None\<close> is ValueError\<close>
  "strptime s =
     (case parse_Y s of None \<Rightarrow> None | Some (y, s1) \<Rightarrow>
      (case expect CHR ''-'' s1 of None \<Rightarrow> None | Some s2 \<Rightarrow>
       (case parse_m s2 of None \<Rightarrow> None | Some (m, s3) \<Rightarrow>
        (case expect CHR ''-'' s3 of None \<Rightarrow> None | Some s4 \<Rightarrow>
         (case parse_d s4 of None \<Rightarrow> None | Some (d, s5) \<Rightarrow>
            if s5 \<noteq> [] then None
            else (let dt = \<lparr>year = y, month = m, day = d\<rparr>
                  in if valid_date dt then Some dt else None))))))"

definition parse_date_from_content :: "string \<Rightarrow> date option" where
  \<comment> \<open>every exception is caught and gives \<open>None\<close>\<close>
  "parse_date_from_content paper_content =
     (if CHR ''|'' \<in> set paper_content then
        (let parts = split CHR ''|'' paper_content
         in if length parts \<ge> 3
            then (let date_str = replace ''**'' '''' (strip (parts ! 1)) in strptime date_str)
            else None)
      else None)"

definition keep_paper :: "int \<Rightarrow> string \<Rightarrow> bool" where
  \<comment> \<open>\<open>paper_date is None or paper_date >= cutoff_date\<close>, the cut-off as its ordinal\<close>
  "keep_paper cutoff paper_content =
     (case parse_date_from_content paper_content of
        None \<Rightarrow> True
      | Some paper_date \<Rightarrow> toordinal paper_date \<ge> cutoff)"

definition papers_to_keep :: "int \<Rightarrow> papers \<Rightarrow> papers" where
  \<comment> \<open>the inner loop of \<open>cleanup_old_papers\<close>\<close>
  "papers_to_keep cutoff papers =
     fold (\<lambda>(paper_id, paper_content) keep.
             if keep_paper cutoff paper_content then AList.update paper_id paper_content keep
             else keep) papers []"

definition prune_store :: "int \<Rightarrow> store \<Rightarrow> store" where
  \<comment> \<open>\<open>for category, papers in data.items(): ...; data[category] = papers_to_keep\<close>\<close>
  "prune_store cutoff data =
     fold (\<lambda>(category, papers). AList.update category (papers_to_keep cutoff papers)) data data"

definition cleanup_old_papers ::
  "date \<Rightarrow> files \<Rightarrow> string \<Rightarrow> int \<Rightarrow> error + ((int \<times> int) \<times> files)" where
  \<comment> \<open>\<open>today\<close> is \<open>datetime.datetime.now().date()\<close>. \<open>today - timedelta(days=keep_days)\<close>
      raises OverflowError when it would fall before 0001-01-01.\<close>
  "cleanup_old_papers today fs filename keep_days =
     (if keep_days \<le> 0 then Inr ((0, 0), fs)
      else if toordinal today - keep_days < 1 then Inl OverflowError
      else (let cutoff_date = toordinal today - keep_days
            in case fs filename of
                 None \<Rightarrow> Inl FileNotFoundError
               | Some Empty_File \<Rightarrow> Inr ((0, 0), fs)
               | Some Not_Json \<Rightarrow> Inl JSONDecodeError
               | Some (Json data) \<Rightarrow>
                   (let total_papers_before = count_papers data;
                        data' = prune_store cutoff_date data;
                        total_papers_after = count_papers data'
                    in Inr ((total_papers_before, total_papers_after),
                            fs(filename \<mapsto> Json data')))))"

section \<open>Document renderer\<close>

definition sort_papers :: "papers \<Rightarrow> papers" where
  \<comment> \<open>\<open>keys.sort(reverse=True)\<close>, then \<open>output[key] = papers[key]\<close> for each key in that
      order; every key is a key of \<open>papers\<close>, so the lookup finds it\<close>
  "sort_papers papers =
     (let keys = rev (sort (map fst papers))
      in fold (\<lambda>key output.
                 case map_of papers key of
                   Some v \<Rightarrow> AList.update key v output
                 | None \<Rightarrow> output) keys [])"

fun last_index :: "char \<Rightarrow> string \<Rightarrow> nat option" where
  \<comment> \<open>the index of the last \<open>x\<close>\<close>
  "last_index x [] = None"
| "last_index x (c # cs) =
     (case last_index x cs of
        Some j \<Rightarrow> Some (Suc j)
      | None \<Rightarrow> if c = x then Some 0 else None)"

fun search_math :: "nat \<Rightarrow> string \<Rightarrow> (nat \<times> nat) option" where
  \<comment> \<open>\<open>re.search(r"\$.*\$", s).span()\<close>, for the text from index \<open>i\<close> on: the leftmost
      \<open>$\<close> that has another \<open>$\<close> after it before the next newline (\<open>.\<close> matches no
      newline), up to the last such \<open>$\<close> (\<open>.*\<close> is greedy)\<close>
  "search_math i [] = None"
| "search_math i (c # cs) =
     (if c = CHR ''$'' then
        (case last_index CHR ''$'' (takeWhile (\<lambda>x. x \<noteq> newline) cs) of
           Some j \<Rightarrow> Some (i, i + j + 2)
         | None \<Rightarrow> search_math (Suc i) cs)
      else search_math (Suc i) cs)"

definition pretty_math :: "string \<Rightarrow> string" where
  "pretty_math s =
     (case search_math 0 s of
        None \<Rightarrow> s
      | Some (math_start, math_end) \<Rightarrow>
          (let math_content = butlast (tl (take (math_end - math_start) (drop math_start s)));
               before_math = take math_start s;
               after_math = drop math_end s;
               space_before =
                 (if before_math \<noteq> [] \<and> \<not> isspace (last before_math) \<and>
                     last before_math \<noteq> CHR ''*'' then '' '' else []);
               space_after =
                 (if after_math \<noteq> [] \<and> \<not> isspace (hd after_math) \<and>
                     hd after_math \<noteq> CHR ''*'' then '' '' else [])
           in before_math @ space_before @ ''$'' @ strip math_content @ ''$'' @ space_after @
              after_math))"

text \<open>
  The fields the styled list reads back from a stored row (lines 593-611), and the
  rendered document as its topic sections in the order written, each with its entries in
  the order written: the parsed fields in the styled list, the rows in the table of the
  web page. The markup written around them is not modelled.
\<close>

record item =
  item_date :: string
  item_title :: string
  item_last_author :: string
  item_categories :: string
  item_pdf_link :: string
  item_comments :: string
  item_abstract :: string

definition parse_row :: "bool \<Rightarrow> string \<Rightarrow> item option" where
  \<comment> \<open>\<open>None\<close> when the row has fewer than 7 parts and is skipped\<close>
  "parse_row show_abstract v =
     (let parts = split CHR ''|'' (strip v)
      in if length parts \<ge> 7 then
           Some \<lparr>item_date = strip (replace ''**'' '''' (parts ! 1)),
                 item_title = strip (replace ''**'' '''' (parts ! 2)),
                 item_last_author = strip (parts ! 3),
                 item_categories = strip (parts ! 4),
                 item_pdf_link = strip (parts ! 5),
                 item_comments = strip (parts ! 6),
                 item_abstract =
                   (if show_abstract \<and> length parts \<ge> 8 then strip (parts ! 7) else [])\<rparr>
         else None)"

datatype entries = Styled "item list" | Table "string list"

definition render_topic :: "bool \<Rightarrow> bool \<Rightarrow> papers \<Rightarrow> entries" where
  "render_topic to_web show_abstract day_content =
     (let day_content = sort_papers day_content
      in if \<not> to_web then Styled (List.map_filter (\<lambda>(paper_key, v). parse_row show_abstract v) day_content)
         else Table (map (\<lambda>(paper_key, v). pretty_math v) day_content))"

definition render_store :: "bool \<Rightarrow> bool \<Rightarrow> store \<Rightarrow> (string \<times> entries) list" where
  \<comment> \<open>\<open>for keyword in data.keys(): if not day_content: continue; ...\<close>\<close>
  "render_store to_web show_abstract data =
     map (\<lambda>(keyword, day_content). (keyword, render_topic to_web show_abstract day_content))
       (filter (\<lambda>(keyword, day_content). day_content \<noteq> []) data)"

definition json_to_md :: "files \<Rightarrow> string \<Rightarrow> bool \<Rightarrow> bool \<Rightarrow> error + (string \<times> entries) list" where
  "json_to_md fs filename to_web show_abstract =
     (case fs filename of
        None \<Rightarrow> Inl FileNotFoundError
      | Some Empty_File \<Rightarrow> Inr (render_store to_web show_abstract [])
      | Some Not_Json \<Rightarrow> Inl JSONDecodeError
      | Some (Json data) \<Rightarrow> Inr (render_store to_web show_abstract data))"

section \<open>Notions used in the properties\<close>

definition wf_store :: "store \<Rightarrow> bool" where
  \<comment> \<open>a store is a dict of dicts: no topic and no entry key of a topic occurs twice\<close>
  "wf_store m = (distinct (map fst m) \<and> list_all (\<lambda>(topic, papers). distinct (map fst papers)) m)"

definition entries_of :: "store \<Rightarrow> string \<Rightarrow> papers" where
  \<comment> \<open>the entries a store holds for a topic; none for a topic it does not have\<close>
  "entries_of m topic = (case map_of m topic of None \<Rightarrow> [] | Some papers \<Rightarrow> papers)"

definition batch_items :: "store list \<Rightarrow> (string \<times> papers) list" where
  \<comment> \<open>the topics of a fetched batch with their entries, in the order the loops visit them\<close>
  "batch_items data_dict = concat data_dict"

definition store_step :: "string \<times> papers \<Rightarrow> store \<Rightarrow> store" where
  \<comment> \<open>what one pass of \<open>merge_keyword\<close> without \<open>clear_existing\<close> does to \<open>json_data\<close>\<close>
  "store_step e json_data =
     (case map_of json_data (fst e) of
        Some existing \<Rightarrow> AList.update (fst e) (dict_update existing (snd e)) json_data
      | None \<Rightarrow> AList.update (fst e) (snd e) json_data)"

definition topic_items :: "string \<Rightarrow> (string \<times> papers) list \<Rightarrow> papers" where
  \<comment> \<open>all the entries a batch brings for a topic, in the order they are merged\<close>
  "topic_items topic items = concat (map snd (filter (\<lambda>e. fst e = topic) items))"

fun contains_bold :: "string \<Rightarrow> bool" where
  \<comment> \<open>the text has two asterisks in a row, the bold markup \<open>**\<close>\<close>
  "contains_bold (a # b # s) = ((a = CHR ''*'' \<and> b = CHR ''*'') \<or> contains_bold (b # s))"
| "contains_bold _ = False"

definition row_tail :: "bool \<Rightarrow> string \<Rightarrow> string \<Rightarrow> string \<Rightarrow> string \<Rightarrow> string" where
  \<comment> \<open>what \<open>format_row\<close> writes after the categories and their delimiter, up to the newline\<close>
  "row_tail show_abstract key url comms abstr =
     ''['' @ key @ '']('' @ url @ '')|'' @ comms @ ''|'' @
     (if show_abstract then abstr @ ''|'' else [])"

section \<open>Sample inputs\<close>

definition sample_new :: result where
  "sample_new =
     \<lparr>short_id = ''2403.00010v1'', title = ''New paper'', authors = [''A. One'', ''B. Two''],
      published = \<lparr>year = 2024, month = 3, day = 1\<rparr>, categories = [''cs.CV'', ''cs.RO''],
      comment = None, summary = ''Abstract''\<rparr>"

definition sample_old :: result where
  "sample_old =
     \<lparr>short_id = ''hep-th/9901001v2'', title = ''Old paper'', authors = [''C. Three''],
      published = \<lparr>year = 1999, month = 1, day = 5\<rparr>, categories = [''hep-th''],
      comment = Some ''10 pages'', summary = ''Abstract''\<rparr>"

definition row_new :: string where
  "row_new = ''|**2024-03-01**|**New paper**|B. Two|cs.CV; cs.RO|[2403.00010](http://arxiv.org/abs/2403.00010)||'' @ [newline]"

definition row_old :: string where
  "row_old = ''|**1999-01-05**|**Old paper**|C. Three|hep-th|[hep-th/9901001](http://arxiv.org/abs/hep-th/9901001)|10 pages|'' @ [newline]"

definition sample_store :: store where
  \<comment> \<open>the store after both samples were fetched for the topic \<open>SLAM\<close>, the new one first\<close>
  "sample_store = [(''SLAM'', [(''2403.00010'', row_new), (''hep-th/9901001'', row_old)])]"

definition sample_pipe :: result where
  \<comment> \<open>a title with the delimiter in it\<close>
  "sample_pipe =
     \<lparr>short_id = ''2403.00011v1'', title = ''Bounds on $|V_{cb}|$'', authors = [''A. One''],
      published = \<lparr>year = 2024, month = 3, day = 1\<rparr>, categories = [''hep-ph''],
      comment = None, summary = ''Abstract''\<rparr>"

definition row_pipe :: string where
  "row_pipe = ''|**2024-03-01**|**Bounds on $|V_{cb}|$**|A. One|hep-ph|[2403.00011](http://arxiv.org/abs/2403.00011)||'' @ [newline]"

definition row_2023 :: string where
  "row_2023 = ''|**2023-01-01**|**A**|B|cs.CV|[2301.00001](http://arxiv.org/abs/2301.00001)||'' @ [newline]"

definition row_2024 :: string where
  "row_2024 = ''|**2024-01-01**|**C**|D|cs.CV|[2401.00001](http://arxiv.org/abs/2401.00001)||'' @ [newline]"

definition row_undated :: string where
  "row_undated = ''|**not a date**|**E**|F|cs.CV|[2201.00001](http://arxiv.org/abs/2201.00001)||'' @ [newline]"

definition retention_store :: store where
  "retention_store =
     [(''SLAM'', [(''2301.00001'', row_2023), (''2401.00001'', row_2024), (''2201.00001'', row_undated)]),
      (''NeRF'', [(''2301.00001'', row_2023)])]"

definition slam_batch :: "store list" where
  "slam_batch = [[(''SLAM'', [(''2403.00010'', row_new)])]]"

definition slam_store :: store where
  "slam_store = [(''SLAM'', [(''2403.00010'', row_new)])]"

definition two_topics :: "(string \<times> string) list" where
  \<comment> \<open>a configuration with two topics and their queries\<close>
  "two_topics = [(''SLAM'', ''slam''), (''NeRF'', ''nerf'')]"

definition merged_store :: store where
  \<comment> \<open>\<open>retention_store\<close> after \<open>slam_batch\<close> was merged into it\<close>
  "merged_store =
     [(''SLAM'', [(''2301.00001'', row_2023), (''2401.00001'', row_2024), (''2201.00001'', row_undated),
                  (''2403.00010'', row_new)]),
      (''NeRF'', [(''2301.00001'', row_2023)])]"

section \<open>Properties\<close>

subsection \<open>Authors\<close>

text \<open>
  C10: \<open>get_authors\<close> returns the empty string for an empty list of authors, with and
  without \<open>last_author\<close>, and raises nothing (the result is \<open>Inr\<close>, never IndexError).
\<close>

theorem get_authors_empty: "get_authors [] last_author = Inr ''''"
  by (simp add: get_authors_def)


subsection \<open>Entry keys\<close>

lemma find_str_absent: "x \<notin> set s \<Longrightarrow> find_str s x = -1"
  by (induction s) auto

lemma find_str_first: "x \<notin> set a \<Longrightarrow> find_str (a @ x # b) x = int (length a)"
  by (induction a) (auto simp: Let_def)

lemma paper_key_no_v: "CHR ''v'' \<notin> set paper_id \<Longrightarrow> paper_key paper_id = paper_id"
  by (simp add: paper_key_def find_str_absent)

lemma paper_key_version:
  "CHR ''v'' \<notin> set base \<Longrightarrow> paper_key (base @ CHR ''v'' # version) = base"
  by (simp add: paper_key_def find_str_first)

lemma paper_key_examples:
  "paper_key ''2108.09112v2'' = ''2108.09112''" "paper_key ''2108.09112'' = ''2108.09112''"
  by (simp_all add: paper_key_def)

text \<open>
  C6: the entry key is the id without its trailing version suffix. The code cuts the id
  at its first \<open>v\<close>, which is the version suffix only when the id has no other \<open>v\<close>
  (\<open>paper_key_version\<close>, \<open>paper_key_no_v\<close>): the id \<open>solv-int/9901001v1\<close> of the
  archive \<open>solv-int\<close> gets the key \<open>sol\<close>.
\<close>

theorem paper_key_solv_int: "paper_key ''solv-int/9901001v1'' = ''sol''"
  by (simp add: paper_key_def)

subsection \<open>Fetching\<close>

lemma get_daily_papers_topic: "map fst (get_daily_papers topic results show_abstract) = [topic]"
  by (simp add: get_daily_papers_def split: prod.splits option.splits)

lemma get_daily_papers_raise_first: "get_daily_papers topic Raise show_abstract = [(topic, [])]"
  by (simp add: get_daily_papers_def)

lemma format_entry_sample_new:
  "format_entry False sample_new = Inr (''2403.00010'', row_new)"
  by code_simp

text \<open>
  C3: a provider error is caught and the topic yields no entries. The error is caught
  (\<open>get_daily_papers\<close> always returns the mapping of its topic), and the mapping is empty
  when the error comes before the first result (\<open>get_daily_papers_raise_first\<close>); when
  the provider raises after it has yielded a result, the entry stored for that result
  stays in the mapping that is returned.
\<close>

theorem get_daily_papers_raise_later:
  "get_daily_papers ''SLAM'' (Yield sample_new Raise) False = [(''SLAM'', [(''2403.00010'', row_new)])]"
  by (simp add: get_daily_papers_def format_entry_sample_new)

subsection \<open>Reading the store file\<close>

lemma update_json_file_empty_file:
  "fs filename = Some Empty_File \<Longrightarrow>
   update_json_file fs filename data_dict current_keywords False =
   update_json_file (fs(filename \<mapsto> Json [])) filename data_dict current_keywords False"
  by (simp add: update_json_file_def count_papers_def)

text \<open>
  C4: an empty or missing store file is read as an empty store. It is so for a file with
  no content (\<open>update_json_file_empty_file\<close>); a file that does not exist makes
  \<open>open(filename, "r")\<close> raise, whatever the batch.
\<close>

theorem update_json_file_missing_file:
  "update_json_file Map.empty filename data_dict current_keywords False = Inl FileNotFoundError"
  by (simp add: update_json_file_def)

subsection \<open>Order of the rendered entries\<close>

lemma get_daily_papers_samples:
  "get_daily_papers ''SLAM'' (Yield sample_new (Yield sample_old Done)) False = sample_store"
  by code_simp

lemma sort_papers_sample:
  "sort_papers [(''2403.00010'', row_new), (''hep-th/9901001'', row_old)] =
   [(''hep-th/9901001'', row_old), (''2403.00010'', row_new)]"
  by code_simp

lemma parse_row_sample_old:
  "parse_row False row_old =
   Some \<lparr>item_date = ''1999-01-05'', item_title = ''Old paper'', item_last_author = ''C. Three'',
         item_categories = ''hep-th'',
         item_pdf_link = ''[hep-th/9901001](http://arxiv.org/abs/hep-th/9901001)'',
         item_comments = ''10 pages'', item_abstract = []\<rparr>"
  by code_simp

lemma parse_row_sample_new:
  "parse_row False row_new =
   Some \<lparr>item_date = ''2024-03-01'', item_title = ''New paper'', item_last_author = ''B. Two'',
         item_categories = ''cs.CV; cs.RO'',
         item_pdf_link = ''[2403.00010](http://arxiv.org/abs/2403.00010)'',
         item_comments = [], item_abstract = []\<rparr>"
  by code_simp

text \<open>
  C2: the entries of a topic are rendered in descending order of publish date.
  \<open>sort_papers\<close> orders the entries by entry key, not by the date in the row. The
  sample store is what the fetcher returns for a result of 2024 with a new-style id and a
  result of 1999 with an old-style id (\<open>get_daily_papers_samples\<close>): the entry of 1999
  has the greater key and is rendered before the entry of 2024-03-01, in the styled list.
\<close>

theorem json_to_md_orders_by_key:
  "json_to_md [''docs/arxiv.json'' \<mapsto> Json sample_store] ''docs/arxiv.json'' False False =
   Inr [(''SLAM'',
         Styled
          [\<lparr>item_date = ''1999-01-05'', item_title = ''Old paper'',
              item_last_author = ''C. Three'', item_categories = ''hep-th'',
              item_pdf_link = ''[hep-th/9901001](http://arxiv.org/abs/hep-th/9901001)'',
              item_comments = ''10 pages'', item_abstract = []\<rparr>,
           \<lparr>item_date = ''2024-03-01'', item_title = ''New paper'',
              item_last_author = ''B. Two'', item_categories = ''cs.CV; cs.RO'',
              item_pdf_link = ''[2403.00010](http://arxiv.org/abs/2403.00010)'',
              item_comments = [], item_abstract = []\<rparr>])]"
  by (simp add: json_to_md_def render_store_def render_topic_def sample_store_def
      sort_papers_sample List.map_filter_simps parse_row_sample_old parse_row_sample_new)

subsection \<open>Strings\<close>

lemma split_no_sep: "sep \<notin> set a \<Longrightarrow> split sep a = [a]"
  by (induction a) auto

lemma split_append: "sep \<notin> set a \<Longrightarrow> split sep (a @ sep # rest) = a # split sep rest"
  by (induction a) auto

lemma split_sep_Cons: "split sep (sep # cs) = [] # split sep cs"
  by simp

lemma split_not_Nil: "split sep s \<noteq> []"
  by (induction s) (auto split: list.splits)

lemma length_split: "length (split sep s) = Suc (count_list s sep)"
  by (induction s) (auto split: list.splits simp: split_not_Nil)

lemma dropWhile_hd: "s \<noteq> [] \<Longrightarrow> \<not> P (hd s) \<Longrightarrow> dropWhile P s = s"
  by (cases s) auto

lemma strip_snoc_newline:
  assumes "s \<noteq> []" "\<not> isspace (hd s)" "\<not> isspace (last s)"
  shows "strip (s @ [newline]) = s"
proof -
  have "isspace newline" by (simp add: isspace_def newline_def)
  moreover have "dropWhile isspace (s @ [newline]) = s @ [newline]"
    using assms by (cases s) auto
  moreover have "dropWhile isspace (rev s) = rev s"
    using assms by (cases s rule: rev_cases) auto
  ultimately show ?thesis by (simp add: strip_def)
qed

lemma strip_id:
  assumes "s = [] \<or> (\<not> isspace (hd s) \<and> \<not> isspace (last s))"
  shows "strip s = s"
proof (cases "s = []")
  case True
  then show ?thesis by (simp add: strip_def)
next
  case False
  with assms have h: "\<not> isspace (hd s)" "\<not> isspace (hd (rev s))"
    by (auto simp: hd_rev)
  show ?thesis
    using False h by (simp add: strip_def dropWhile_hd)
qed

lemma replace_bold_suffix: "\<not> contains_bold t \<Longrightarrow> replace ''**'' '''' (t @ ''**'') = t"
  by (induction t rule: contains_bold.induct) auto

lemma replace_bold_wrapped:
  "\<not> contains_bold t \<Longrightarrow> replace ''**'' '''' (''**'' @ t @ ''**'') = t"
  using replace_bold_suffix [of t] by simp

lemma of_char_digit_char: "of_char (digit_char n) = 48 + n mod 10"
  by (simp add: digit_char_def)

lemma digit_char_props:
  "digit_char n \<noteq> CHR ''*''" "digit_char n \<noteq> CHR ''|''" "\<not> isspace (digit_char n)"
proof -
  have "(of_char (digit_char n) :: nat) \<notin>
        {42, 124, 9, 10, 11, 12, 13, 28, 29, 30, 31, 32, 133, 160}"
    by (simp add: of_char_digit_char) presburger
  then show "digit_char n \<noteq> CHR ''*''" "digit_char n \<noteq> CHR ''|''" "\<not> isspace (digit_char n)"
    by (auto simp: isspace_def)
qed

lemma isoformat_props:
  "CHR ''|'' \<notin> set (isoformat d)" "\<not> contains_bold (isoformat d)"
  "strip (isoformat d) = isoformat d"
  by (simp_all add: isoformat_def digit_char_props digit_char_props(1,2) [symmetric] strip_def)

subsection \<open>The math normalizer\<close>

lemma last_index_None: "x \<notin> set s \<Longrightarrow> last_index x s = None"
  by (induction s) auto

lemma last_index_append: "x \<notin> set b \<Longrightarrow> last_index x (a @ x # b) = Some (length a)"
  by (induction a) (auto simp: last_index_None)

lemma takeWhile_line:
  "newline \<notin> set a \<Longrightarrow>
   takeWhile (\<lambda>x. x \<noteq> newline) (a @ b) = a @ takeWhile (\<lambda>x. x \<noteq> newline) b"
  by (induction a) auto

lemma search_math_span:
  assumes "CHR ''$'' \<notin> set before" "CHR ''$'' \<notin> set after" "newline \<notin> set content"
  shows "search_math i (before @ CHR ''$'' # content @ CHR ''$'' # after) =
         Some (i + length before, i + length before + length content + 2)"
  using assms(1)
proof (induction before arbitrary: i)
  case Nil
  have "CHR ''$'' \<notin> set (takeWhile (\<lambda>x. x \<noteq> newline) after)"
    using assms(2) by (meson set_takeWhileD)
  then have "last_index CHR ''$'' (content @ CHR ''$'' # takeWhile (\<lambda>x. x \<noteq> newline) after) =
             Some (length content)"
    by (rule last_index_append)
  moreover have "takeWhile (\<lambda>x. x \<noteq> newline) (content @ CHR ''$'' # after) =
      content @ CHR ''$'' # takeWhile (\<lambda>x. x \<noteq> newline) after"
    using assms(3) by (simp add: takeWhile_line) (simp add: newline_def)
  ultimately show ?case
    by simp
next
  case (Cons c before)
  then show ?case by auto
qed

text \<open>
  C8: on a string with one inline math span \<open>$content$\<close> (no other \<open>$\<close> before or after
  it, no newline inside it), \<open>pretty_math\<close> keeps the text before and after the span,
  trims the white space inside the delimiters, and puts one space between the span and
  the text on a side exactly when there is text on that side and the character next to
  the span is neither white space (a space is already there) nor \<open>*\<close>.
\<close>

theorem pretty_math_single_span:
  assumes "CHR ''$'' \<notin> set before" "CHR ''$'' \<notin> set after" "newline \<notin> set content"
  shows "pretty_math (before @ ''$'' @ content @ ''$'' @ after) =
         before @
         (if before \<noteq> [] \<and> \<not> isspace (last before) \<and> last before \<noteq> CHR ''*''
          then '' '' else []) @
         ''$'' @ strip content @ ''$'' @
         (if after \<noteq> [] \<and> \<not> isspace (hd after) \<and> hd after \<noteq> CHR ''*''
          then '' '' else []) @
         after"
proof -
  have s: "search_math 0 (before @ CHR ''$'' # content @ CHR ''$'' # after) =
           Some (length before, length before + length content + 2)"
    using search_math_span [OF assms, of 0] by simp
  have m: "butlast (tl (take (length content + 2) (CHR ''$'' # content @ CHR ''$'' # after))) =
           content"
    by (simp add: butlast_append)
  show ?thesis
    by (simp add: pretty_math_def s m)
qed

text \<open>
  The three examples of the specification: spaces are added around the span of
  \<open>result$x+1$end\<close>, an input that is spaced already is unchanged, and so is an input
  whose span stands between \<open>**\<close> markers.
\<close>

theorem pretty_math_examples:
  "pretty_math ''result$x+1$end'' = ''result $x+1$ end'' \<and>
   pretty_math ''result $x+1$ end'' = ''result $x+1$ end'' \<and>
   pretty_math ''**$x+1$**'' = ''**$x+1$**''"
  using pretty_math_single_span [of "''result''" "''end''" "''x+1''"]
    pretty_math_single_span [of "''result ''" "'' end''" "''x+1''"]
    pretty_math_single_span [of "''**''" "''**''" "''x+1''"]
  by (simp add: newline_def isspace_def strip_def)

subsection \<open>Round trip of a formatted row\<close>

lemma strip_format_row:
  "strip (format_row sa d t la cats key url comms abstr) =
   ''|**'' @ isoformat d @ ''**|**'' @ t @ ''**|'' @ la @ ''|'' @ cats @ ''|'' @
   row_tail sa key url comms abstr"
proof -
  let ?body = "''|**'' @ isoformat d @ ''**|**'' @ t @ ''**|'' @ la @ ''|'' @ cats @ ''|'' @
     row_tail sa key url comms abstr"
  have "last (row_tail sa key url comms abstr) = CHR ''|''"
    by (simp add: row_tail_def)
  moreover have "row_tail sa key url comms abstr \<noteq> []"
    by (simp add: row_tail_def)
  ultimately have "last ?body = CHR ''|''" by simp
  moreover have "hd ?body = CHR ''|''" by simp
  moreover have "format_row sa d t la cats key url comms abstr = ?body @ [newline]"
    by (simp add: format_row_def row_tail_def)
  ultimately show ?thesis
    using strip_snoc_newline [of ?body] by (simp add: isspace_def)
qed

lemma count_row_tail: "count_list (row_tail sa key url comms abstr) CHR ''|'' \<ge> 2"
  by (simp add: row_tail_def)

lemma parse_row_format_row:
  "\<exists>it. parse_row sa' (format_row sa d t la cats key url comms abstr) = Some it \<and>
     item_date it = isoformat d \<and>
     (CHR ''|'' \<notin> set t \<longrightarrow>
        item_title it = strip (replace ''**'' '''' (''**'' @ t @ ''**'')) \<and>
        (CHR ''|'' \<notin> set la \<and> CHR ''|'' \<notin> set cats \<longrightarrow> item_categories it = strip cats))"
proof -
  define f1 where "f1 = ''**'' @ isoformat d @ ''**''"
  define f2 where "f2 = ''**'' @ t @ ''**''"
  define rest where "rest = row_tail sa key url comms abstr"
  define body where
    "body = CHR ''|'' # f1 @ CHR ''|'' # f2 @ CHR ''|'' # la @ CHR ''|'' # cats @ CHR ''|'' # rest"
  define parts where "parts = split CHR ''|'' body"
  have body: "strip (format_row sa d t la cats key url comms abstr) = body"
    by (simp add: strip_format_row body_def f1_def f2_def rest_def)
  have "count_list body CHR ''|'' \<ge> 6"
    using count_row_tail [of sa key url comms abstr] by (simp add: body_def rest_def)
  then have len: "length parts \<ge> 7"
    by (simp add: parts_def length_split)
  have n1: "CHR ''|'' \<notin> set f1"
    by (simp add: f1_def isoformat_props)
  have p1: "parts =
      [] # f1 # split CHR ''|'' (f2 @ CHR ''|'' # la @ CHR ''|'' # cats @ CHR ''|'' # rest)"
    by (simp only: parts_def body_def split_sep_Cons split_append [OF n1])
  have date: "strip (replace ''**'' '''' (parts ! 1)) = isoformat d"
    using replace_bold_wrapped [OF isoformat_props(2), of d] isoformat_props(3) [of d]
    by (simp only: p1 f1_def nth_Cons_Suc nth_Cons_0 One_nat_def)
  have p2: "parts = [] # f1 # f2 # split CHR ''|'' (la @ CHR ''|'' # cats @ CHR ''|'' # rest)"
    if "CHR ''|'' \<notin> set t"
  proof -
    have n2: "CHR ''|'' \<notin> set f2" using that by (simp add: f2_def)
    show ?thesis by (simp only: p1 split_append [OF n2])
  qed
  have p4: "parts = [] # f1 # f2 # la # cats # split CHR ''|'' rest"
    if "CHR ''|'' \<notin> set t" "CHR ''|'' \<notin> set la" "CHR ''|'' \<notin> set cats"
    by (simp only: p2 [OF that(1)] split_append [OF that(2)] split_append [OF that(3)])
  have title: "parts ! 2 = ''**'' @ t @ ''**''" if "CHR ''|'' \<notin> set t"
    by (simp add: p2 [OF that] f2_def)
  have cats: "parts ! 4 = cats"
    if "CHR ''|'' \<notin> set t" "CHR ''|'' \<notin> set la" "CHR ''|'' \<notin> set cats"
    by (simp add: p4 [OF that])
  have "parse_row sa' (format_row sa d t la cats key url comms abstr) =
        Some \<lparr>item_date = strip (replace ''**'' '''' (parts ! 1)),
              item_title = strip (replace ''**'' '''' (parts ! 2)),
              item_last_author = strip (parts ! 3),
              item_categories = strip (parts ! 4),
              item_pdf_link = strip (parts ! 5),
              item_comments = strip (parts ! 6),
              item_abstract = (if sa' \<and> length parts \<ge> 8 then strip (parts ! 7) else [])\<rparr>"
    using len unfolding parse_row_def body Let_def parts_def [symmetric] by simp
  then show ?thesis
    using date title cats by simp
qed

lemma format_entry_row:
  "format_entry sa r =
   Inr (paper_key (short_id r),
        format_row sa (published r) (title r)
          (if authors r = [] then [] else last (authors r))
          (categories_str (categories r)) (paper_key (short_id r))
          (arxiv_url @ ''abs/'' @ paper_key (short_id r)) (comments_str (comment r))
          (abstract_str sa (summary r)))"
  by (cases "authors r" rule: rev_cases)
    (simp_all add: format_entry_def get_authors_def index_last_def Let_def)

lemma format_entry_sample_pipe: "format_entry False sample_pipe = Inr (''2403.00011'', row_pipe)"
  by code_simp

lemma parse_row_pipe: "map_option item_title (parse_row False row_pipe) = Some ''Bounds on $''"
  by code_simp

text \<open>
  C7, as stated: the row the fetcher formats from a record, parsed back by the styled
  list, gives the record's title, date and categories. It does not for a title with the
  delimiter in it: the row of \<open>sample_pipe\<close> is read back with the title cut at its first
  \<open>|\<close>.
\<close>

theorem round_trip_title_with_pipe:
  "format_entry False sample_pipe = Inr (''2403.00011'', row_pipe) \<and>
   map_option item_title (parse_row False row_pipe) = Some ''Bounds on $'' \<and>
   title sample_pipe \<noteq> ''Bounds on $''"
  by (simp add: format_entry_sample_pipe parse_row_pipe) (simp add: sample_pipe_def)

text \<open>
  C7, amended: the row of every record is read back (it always has its 7 parts) with the
  record's date; with the record's title when the title has no \<open>|\<close>, no \<open>**\<close> and no
  white space at its ends; and with the record's categories, joined by \<open>; \<close>, when
  neither the title, the last author's name nor the joined categories have a \<open>|\<close> and
  the joined categories have no white space at their ends.
\<close>

theorem fetched_row_round_trip:
  "\<exists>key row it.
     format_entry sa r = Inr (key, row) \<and> parse_row sa' row = Some it \<and>
     item_date it = isoformat (published r) \<and>
     (CHR ''|'' \<notin> set (title r) \<and> \<not> contains_bold (title r) \<and> strip (title r) = title r \<longrightarrow>
        item_title it = title r) \<and>
     (CHR ''|'' \<notin> set (title r) \<and>
      CHR ''|'' \<notin> set (if authors r = [] then [] else last (authors r)) \<and>
      CHR ''|'' \<notin> set (categories_str (categories r)) \<and>
      strip (categories_str (categories r)) = categories_str (categories r) \<longrightarrow>
        item_categories it = categories_str (categories r))"
proof -
  let ?la = "if authors r = [] then [] else last (authors r)"
  let ?key = "paper_key (short_id r)"
  obtain it where it:
    "parse_row sa' (format_row sa (published r) (title r) ?la (categories_str (categories r))
       ?key (arxiv_url @ ''abs/'' @ ?key) (comments_str (comment r))
       (abstract_str sa (summary r))) = Some it"
    "item_date it = isoformat (published r)"
    "CHR ''|'' \<notin> set (title r) \<longrightarrow>
       item_title it = strip (replace ''**'' '''' (''**'' @ title r @ ''**'')) \<and>
       (CHR ''|'' \<notin> set ?la \<and> CHR ''|'' \<notin> set (categories_str (categories r)) \<longrightarrow>
          item_categories it = strip (categories_str (categories r)))"
    using parse_row_format_row by blast
  have "item_title it = title r"
    if "CHR ''|'' \<notin> set (title r)" "\<not> contains_bold (title r)" "strip (title r) = title r"
    using it(3) that replace_bold_wrapped [OF that(2)] by (simp del: replace.simps)
  moreover have "item_categories it = categories_str (categories r)"
    if "CHR ''|'' \<notin> set (title r)" "CHR ''|'' \<notin> set ?la"
      "CHR ''|'' \<notin> set (categories_str (categories r))"
      "strip (categories_str (categories r)) = categories_str (categories r)"
    using it(3) that by simp
  ultimately show ?thesis
    using it(1,2) format_entry_row [of sa r] by blast
qed

theorem fetched_row_round_trip_sample:
  "format_entry False sample_new = Inr (''2403.00010'', row_new) \<and>
   map_option item_date (parse_row False row_new) = Some ''2024-03-01'' \<and>
   map_option item_title (parse_row False row_new) = Some ''New paper'' \<and>
   map_option item_categories (parse_row False row_new) = Some ''cs.CV; cs.RO''"
proof -
  obtain key row it where h:
    "format_entry False sample_new = Inr (key, row)" "parse_row False row = Some it"
    "item_date it = isoformat (published sample_new)"
    "CHR ''|'' \<notin> set (title sample_new) \<and> \<not> contains_bold (title sample_new) \<and>
       strip (title sample_new) = title sample_new \<longrightarrow> item_title it = title sample_new"
    "CHR ''|'' \<notin> set (title sample_new) \<and>
      CHR ''|'' \<notin> set (if authors sample_new = [] then [] else last (authors sample_new)) \<and>
      CHR ''|'' \<notin> set (categories_str (categories sample_new)) \<and>
      strip (categories_str (categories sample_new)) = categories_str (categories sample_new) \<longrightarrow>
        item_categories it = categories_str (categories sample_new)"
    using fetched_row_round_trip [of False sample_new False] by blast
  have row: "row = row_new"
    using h(1) by (simp add: format_entry_sample_new)
  have t: "title sample_new = ''New paper''" "strip ''New paper'' = ''New paper''"
    by (simp_all add: sample_new_def strip_def isspace_def)
  have c: "categories_str (categories sample_new) = ''cs.CV; cs.RO''"
    "strip ''cs.CV; cs.RO'' = ''cs.CV; cs.RO''"
    by (simp_all add: sample_new_def categories_str_def strip_def isspace_def)
  have d: "isoformat (published sample_new) = ''2024-03-01''"
    by code_simp
  have a: "authors sample_new = [''A. One'', ''B. Two'']"
    by (simp add: sample_new_def)
  have "item_title it = ''New paper''"
    using h(4) by (simp add: t)
  moreover have "item_categories it = ''cs.CV; cs.RO''"
    using h(5) by (simp add: t c a)
  ultimately show ?thesis
    using h(2,3) row d by (simp add: format_entry_sample_new)
qed

subsection \<open>Retention\<close>

lemma update_new: "k \<notin> fst ` set al \<Longrightarrow> AList.update k v al = al @ [(k, v)]"
  by (induction al) auto

lemma update_append_right:
  "k \<notin> fst ` set a \<Longrightarrow> AList.update k v (a @ b) = a @ AList.update k v b"
  by (induction a) auto

lemma fold_keep_filter:
  assumes "distinct (map fst ps)" "fst ` set acc \<inter> fst ` set ps = {}"
  shows "fold (\<lambda>(k, v) keep. if P v then AList.update k v keep else keep) ps acc =
         acc @ filter (\<lambda>(k, v). P v) ps"
  using assms
proof (induction ps arbitrary: acc)
  case Nil
  then show ?case by simp
next
  case (Cons p ps)
  obtain k v where p: "p = (k, v)" by (cases p)
  show ?case
  proof (cases "P v")
    case True
    have "k \<notin> fst ` set acc" using Cons.prems p by auto
    then have u: "AList.update k v acc = acc @ [(k, v)]" by (rule update_new)
    have "fst ` set (acc @ [(k, v)]) \<inter> fst ` set ps = {}"
      using Cons.prems p by auto
    then show ?thesis
      using Cons.IH [of "acc @ [(k, v)]"] Cons.prems p True u by simp
  next
    case False
    then show ?thesis using Cons p by auto
  qed
qed

lemma papers_to_keep_filter:
  "distinct (map fst papers) \<Longrightarrow>
   papers_to_keep cutoff papers = filter (\<lambda>(k, row). keep_paper cutoff row) papers"
  using fold_keep_filter [of papers "[]" "keep_paper cutoff"] by (simp add: papers_to_keep_def)

lemma fold_update_map:
  assumes "distinct (map fst (pre @ xs))"
  shows "fold (\<lambda>(t, ps). AList.update t (g ps)) xs (map (\<lambda>(t, ps). (t, g ps)) pre @ xs) =
         map (\<lambda>(t, ps). (t, g ps)) (pre @ xs)"
  using assms
proof (induction xs arbitrary: pre)
  case Nil
  then show ?case by simp
next
  case (Cons x xs)
  obtain t ps where x: "x = (t, ps)" by (cases x)
  have "t \<notin> fst ` set (map (\<lambda>(t, ps). (t, g ps)) pre)"
    using Cons.prems x by force
  then have "AList.update t (g ps) (map (\<lambda>(t, ps). (t, g ps)) pre @ x # xs) =
             map (\<lambda>(t, ps). (t, g ps)) (pre @ [x]) @ xs"
    by (simp add: update_append_right x)
  then show ?case
    using Cons.IH [of "pre @ [x]"] Cons.prems x by simp
qed

lemma prune_store_map:
  "distinct (map fst data) \<Longrightarrow>
   prune_store cutoff data = map (\<lambda>(t, ps). (t, papers_to_keep cutoff ps)) data"
  using fold_update_map [of "[]" data "papers_to_keep cutoff"] by (simp add: prune_store_def)

lemma prune_store_filter:
  assumes "wf_store data"
  shows "prune_store cutoff data =
         map (\<lambda>(t, ps). (t, filter (\<lambda>(k, row). keep_paper cutoff row) ps)) data"
proof -
  have "map (\<lambda>(t, ps). (t, papers_to_keep cutoff ps)) data =
        map (\<lambda>(t, ps). (t, filter (\<lambda>(k, row). keep_paper cutoff row) ps)) data"
    using assms by (auto simp: wf_store_def list_all_iff papers_to_keep_filter)
  then show ?thesis
    using assms by (simp add: prune_store_map wf_store_def)
qed

lemma parse_date_second_field:
  assumes "CHR ''|'' \<notin> set a" "CHR ''|'' \<notin> set b"
  shows "parse_date_from_content (a @ ''|'' @ b @ ''|'' @ rest) =
         strptime (replace ''**'' '''' (strip b))"
proof -
  have s: "split CHR ''|'' (a @ CHR ''|'' # b @ CHR ''|'' # rest) = a # b # split CHR ''|'' rest"
    by (simp only: split_append [OF assms(1)] split_append [OF assms(2)])
  have "length (split CHR ''|'' rest) \<ge> 1"
    by (simp add: length_split)
  then show ?thesis
    by (simp add: parse_date_from_content_def s del: split.simps replace.simps)
qed

lemma keep_paper_older:
  "keep_paper c row =
   (case parse_date_from_content row of None \<Rightarrow> True | Some d \<Rightarrow> \<not> toordinal d < c)"
  by (simp add: keep_paper_def not_less split: option.splits)

lemma cleanup_old_papers_noop:
  "keep_days \<le> 0 \<Longrightarrow> cleanup_old_papers today fs filename keep_days = Inr ((0, 0), fs)"
  by (simp add: cleanup_old_papers_def)

lemma cleanup_old_papers_json:
  assumes "0 < keep_days" "1 \<le> toordinal today - keep_days" "fs filename = Some (Json data)"
  shows "cleanup_old_papers today fs filename keep_days =
         Inr ((count_papers data, count_papers (prune_store (toordinal today - keep_days) data)),
              fs(filename \<mapsto> Json (prune_store (toordinal today - keep_days) data)))"
  using assms by (simp add: cleanup_old_papers_def Let_def)

text \<open>
  C5: \<open>cleanup_old_papers\<close> returns \<open>(0, 0)\<close> and leaves the files as they are when
  \<open>keep_days \<le> 0\<close>. Otherwise, on a store file (and a cut-off \<open>today - keep_days\<close> that is
  a date), it returns the counts before and after and writes the store in which every
  topic keeps, in their order, exactly the entries whose row is not dated strictly before
  the cut-off: an entry is dropped when \<open>parse_date_from_content\<close> reads a date from its row
  and that date is older than the cut-off, and kept when it reads none. The date read is
  that of the second \<open>|\<close>-delimited field, trimmed and without \<open>**\<close>
  (\<open>parse_date_second_field\<close>).
\<close>

theorem cleanup_old_papers_prunes:
  "(keep_days \<le> 0 \<longrightarrow> cleanup_old_papers today fs filename keep_days = Inr ((0, 0), fs)) \<and>
   (0 < keep_days \<and> 1 \<le> toordinal today - keep_days \<and> fs filename = Some (Json data) \<and>
    wf_store data \<longrightarrow>
      cleanup_old_papers today fs filename keep_days =
      Inr ((count_papers data,
            count_papers
              (map (\<lambda>(topic, papers).
                      (topic, filter (\<lambda>(key, row).
                         case parse_date_from_content row of
                           None \<Rightarrow> True
                         | Some d \<Rightarrow> \<not> toordinal d < toordinal today - keep_days) papers)) data)),
           fs(filename \<mapsto> Json
              (map (\<lambda>(topic, papers).
                      (topic, filter (\<lambda>(key, row).
                         case parse_date_from_content row of
                           None \<Rightarrow> True
                         | Some d \<Rightarrow> \<not> toordinal d < toordinal today - keep_days) papers)) data))))"
proof (intro conjI impI)
  assume "keep_days \<le> 0"
  then show "cleanup_old_papers today fs filename keep_days = Inr ((0, 0), fs)"
    by (rule cleanup_old_papers_noop)
next
  assume a: "0 < keep_days \<and> 1 \<le> toordinal today - keep_days \<and> fs filename = Some (Json data) \<and>
    wf_store data"
  then have "prune_store (toordinal today - keep_days) data =
      map (\<lambda>(t, ps). (t, filter (\<lambda>(k, row). keep_paper (toordinal today - keep_days) row) ps)) data"
    by (simp add: prune_store_filter)
  then have p: "prune_store (toordinal today - keep_days) data =
      map (\<lambda>(topic, papers).
             (topic, filter (\<lambda>(key, row).
                case parse_date_from_content row of
                  None \<Rightarrow> True
                | Some d \<Rightarrow> \<not> toordinal d < toordinal today - keep_days) papers)) data"
    by (simp only: keep_paper_older)
  show "cleanup_old_papers today fs filename keep_days =
      Inr ((count_papers data,
            count_papers
              (map (\<lambda>(topic, papers).
                      (topic, filter (\<lambda>(key, row).
                         case parse_date_from_content row of
                           None \<Rightarrow> True
                         | Some d \<Rightarrow> \<not> toordinal d < toordinal today - keep_days) papers)) data)),
           fs(filename \<mapsto> Json
              (map (\<lambda>(topic, papers).
                      (topic, filter (\<lambda>(key, row).
                         case parse_date_from_content row of
                           None \<Rightarrow> True
                         | Some d \<Rightarrow> \<not> toordinal d < toordinal today - keep_days) papers)) data)))"
    using a cleanup_old_papers_json [of keep_days today fs filename data]
    by (simp only: p)
qed

lemma toordinal_samples:
  "toordinal \<lparr>year = 2024, month = 1, day = 15\<rparr> = 738900"
  "toordinal \<lparr>year = 2023, month = 1, day = 1\<rparr> = 738521"
  "toordinal \<lparr>year = 2024, month = 1, day = 1\<rparr> = 738886"
  by (simp_all add: toordinal_def days_before_year_def days_before_month_def)

lemma parse_date_samples:
  "parse_date_from_content row_2023 = Some \<lparr>year = 2023, month = 1, day = 1\<rparr>"
  "parse_date_from_content row_2024 = Some \<lparr>year = 2024, month = 1, day = 1\<rparr>"
  "parse_date_from_content row_undated = None"
  by code_simp+

lemma wf_retention_store: "wf_store retention_store"
  by code_simp

text \<open>
  The retention example of the specification: with today 2024-01-15 and 30 days kept, the
  row dated 2023-01-01 is dropped, the row dated 2024-01-01 and the row with no date are
  kept, and a topic left with no entry stays in the store.
\<close>

theorem cleanup_old_papers_retention_example:
  "cleanup_old_papers \<lparr>year = 2024, month = 1, day = 15\<rparr> [''docs/arxiv.json'' \<mapsto> Json retention_store]
     ''docs/arxiv.json'' 0 =
   Inr ((0, 0), [''docs/arxiv.json'' \<mapsto> Json retention_store]) \<and>
   cleanup_old_papers \<lparr>year = 2024, month = 1, day = 15\<rparr> [''docs/arxiv.json'' \<mapsto> Json retention_store]
     ''docs/arxiv.json'' 30 =
   Inr ((4, 2),
        [''docs/arxiv.json'' \<mapsto>
           Json [(''SLAM'', [(''2401.00001'', row_2024), (''2201.00001'', row_undated)]),
                 (''NeRF'', [])]])"
proof -
  let ?today = "\<lparr>year = 2024, month = 1, day = 15\<rparr>"
  let ?fs = "[''docs/arxiv.json'' \<mapsto> Json retention_store]"
  have h: "(0::int) < 30 \<and> 1 \<le> toordinal ?today - 30 \<and>
           ?fs ''docs/arxiv.json'' = Some (Json retention_store) \<and> wf_store retention_store"
    by (simp add: toordinal_samples [unfolded One_nat_def] wf_retention_store)
  have c: "count_papers retention_store = 4"
    by (simp add: count_papers_def retention_store_def len_def)
  show ?thesis
    using cleanup_old_papers_prunes [of 0 ?today ?fs "''docs/arxiv.json''" retention_store]
      cleanup_old_papers_prunes [of 30 ?today ?fs "''docs/arxiv.json''" retention_store] h
    by (simp add: c) (simp add: retention_store_def parse_date_samples
        toordinal_samples [unfolded One_nat_def] count_papers_def len_def)
qed

lemma cleanup_retention_value:
  "cleanup_old_papers \<lparr>year = 2024, month = 1, day = 15\<rparr> [''docs/arxiv.json'' \<mapsto> Json retention_store]
     ''docs/arxiv.json'' 30 =
   Inr ((4, 2),
        [''docs/arxiv.json'' \<mapsto>
           Json [(''SLAM'', [(''2401.00001'', row_2024), (''2201.00001'', row_undated)]),
                 (''NeRF'', [])]])"
proof -
  let ?today = "\<lparr>year = 2024, month = 1, day = 15\<rparr>"
  have "prune_store (toordinal ?today - 30) retention_store =
        [(''SLAM'', [(''2401.00001'', row_2024), (''2201.00001'', row_undated)]), (''NeRF'', [])]"
    by (simp add: prune_store_filter [OF wf_retention_store])
      (simp add: retention_store_def keep_paper_def parse_date_samples
        toordinal_samples [unfolded One_nat_def])
  moreover have "count_papers retention_store = 4"
    by (simp add: count_papers_def retention_store_def len_def)
  ultimately show ?thesis
    using cleanup_old_papers_json [of 30 ?today "[''docs/arxiv.json'' \<mapsto> Json retention_store]"
        "''docs/arxiv.json''" retention_store]
    by (simp add: toordinal_samples [unfolded One_nat_def] count_papers_def len_def)
qed

lemma map_of_map_papers:
  "map_of (map (\<lambda>(t, ps). (t, g ps)) data) topic = map_option g (map_of data topic)"
  by (induction data) auto

text \<open>
  C9: when \<open>cleanup_old_papers\<close> returns, on a file that held a store, the file holds a
  store with the same topics in the same order (a topic whose entries were all dropped
  stays, with no entries), and every entry of a topic afterwards is an entry of that topic
  before, with the same key and the same row.
\<close>

theorem cleanup_keeps_topics:
  assumes "cleanup_old_papers today fs filename keep_days = Inr (counts, fs')"
    and "fs filename = Some (Json data)" and "wf_store data"
  shows "\<exists>data'. fs' filename = Some (Json data') \<and> map fst data' = map fst data \<and>
           (\<forall>topic papers'. map_of data' topic = Some papers' \<longrightarrow>
              (\<exists>papers. map_of data topic = Some papers \<and> set papers' \<subseteq> set papers))"
proof (cases "keep_days \<le> 0")
  case True
  then have "fs' = fs"
    using assms(1) by (simp add: cleanup_old_papers_noop)
  then show ?thesis
    using assms(2) by auto
next
  case False
  then have pos: "0 < keep_days" by simp
  have range: "1 \<le> toordinal today - keep_days"
    using assms(1) False by (auto simp: cleanup_old_papers_def split: if_splits)
  define data' where
    "data' = map (\<lambda>(t, ps). (t, filter (\<lambda>(k, row). keep_paper (toordinal today - keep_days) row) ps)) data"
  have "fs' = fs(filename \<mapsto> Json data')"
    using assms(1,2) pos range cleanup_old_papers_json [of keep_days today fs filename data]
    by (simp add: prune_store_filter [OF assms(3)] data'_def)
  then have f: "fs' filename = Some (Json data')" by simp
  have k: "map fst data' = map fst data"
    by (simp add: data'_def case_prod_unfold comp_def)
  have e: "\<exists>papers. map_of data topic = Some papers \<and> set papers' \<subseteq> set papers"
    if "map_of data' topic = Some papers'" for topic papers'
    using that unfolding data'_def map_of_map_papers by auto
  show ?thesis
    using f k e by blast
qed

theorem cleanup_keeps_topics_example:
  "\<exists>counts fs' data'.
     cleanup_old_papers \<lparr>year = 2024, month = 1, day = 15\<rparr>
       [''docs/arxiv.json'' \<mapsto> Json retention_store] ''docs/arxiv.json'' 30 = Inr (counts, fs') \<and>
     fs' ''docs/arxiv.json'' = Some (Json data') \<and> map fst data' = [''SLAM'', ''NeRF'']"
proof -
  let ?fs = "[''docs/arxiv.json'' \<mapsto> Json retention_store]"
  have "?fs ''docs/arxiv.json'' = Some (Json retention_store)" by simp
  from cleanup_keeps_topics [OF cleanup_retention_value this wf_retention_store]
  obtain data' where "([''docs/arxiv.json'' \<mapsto>
           Json [(''SLAM'', [(''2401.00001'', row_2024), (''2201.00001'', row_undated)]),
                 (''NeRF'', [])]]) ''docs/arxiv.json'' = Some (Json data')"
    "map fst data' = map fst retention_store"
    by blast
  then show ?thesis
    using cleanup_retention_value by (simp add: retention_store_def)
qed

subsection \<open>Merging a batch twice\<close>

lemma alist_eqI:
  "distinct (map fst xs) \<Longrightarrow> map fst xs = map fst ys \<Longrightarrow> map_of xs = map_of ys \<Longrightarrow> xs = ys"
proof (induction xs arbitrary: ys)
  case Nil
  then show ?case by simp
next
  case (Cons x xs)
  then obtain y ys' where ys: "ys = y # ys'" by (cases ys) auto
  obtain k v where x: "x = (k, v)" by (cases x)
  obtain k' v' where y: "y = (k', v')" by (cases y)
  have kk: "k' = k" and keys: "map fst xs = map fst ys'"
    using Cons.prems(2) ys x y by simp_all
  have "map_of (x # xs) k = map_of ys k" using fun_cong [OF Cons.prems(3), of k] .
  then have vv: "v' = v" using ys x y kk by simp
  have notin: "k \<notin> set (map fst xs)" using Cons.prems(1) x by simp
  have "map_of xs j = map_of ys' j" for j
  proof (cases "j = k")
    case True
    have "map_of xs k = None" using notin by (simp add: map_of_eq_None_iff)
    moreover have "map_of ys' k = None" using notin keys by (simp add: map_of_eq_None_iff)
    ultimately show ?thesis using True by simp
  next
    case False
    have "map_of (x # xs) j = map_of ys j" using fun_cong [OF Cons.prems(3), of j] .
    then show ?thesis using False x y kk ys by simp
  qed
  then have "map_of xs = map_of ys'" by (rule ext)
  moreover have "distinct (map fst xs)" using Cons.prems(1) by simp
  ultimately have "xs = ys'" using keys Cons.IH by blast
  then show ?case using ys x y kk vv by simp
qed

lemma update_keys_present: "k \<in> fst ` set al \<Longrightarrow> map fst (AList.update k v al) = map fst al"
  by (induction al) auto

lemma dict_update_Nil [simp]: "dict_update d [] = d"
  by (simp add: dict_update_def)

lemma dict_update_Cons: "dict_update d ((k, v) # xs) = dict_update (AList.update k v d) xs"
  by (simp add: dict_update_def)

lemma dict_update_append: "dict_update d (xs @ ys) = dict_update (dict_update d xs) ys"
  by (simp add: dict_update_def)

lemma dom_dict_update: "fst ` set (dict_update d xs) = fst ` set d \<union> fst ` set xs"
proof (induction xs arbitrary: d)
  case Nil
  then show ?case by simp
next
  case (Cons x xs)
  obtain k v where x: "x = (k, v)" by (cases x)
  show ?case
    by (simp add: x dict_update_Cons Cons.IH AList.dom_update)
qed

lemma distinct_dict_update: "distinct (map fst d) \<Longrightarrow> distinct (map fst (dict_update d xs))"
proof (induction xs arbitrary: d)
  case Nil
  then show ?case by simp
next
  case (Cons x xs)
  obtain k v where x: "x = (k, v)" by (cases x)
  show ?case
    using Cons by (simp add: x dict_update_Cons AList.distinct_update)
qed

lemma keys_dict_update_present:
  "fst ` set xs \<subseteq> fst ` set d \<Longrightarrow> map fst (dict_update d xs) = map fst d"
proof (induction xs arbitrary: d)
  case Nil
  then show ?case by simp
next
  case (Cons x xs)
  obtain k v where x: "x = (k, v)" by (cases x)
  have "map fst (AList.update k v d) = map fst d"
    using Cons.prems x by (simp add: update_keys_present)
  moreover have "fst ` set xs \<subseteq> fst ` set (AList.update k v d)"
    using Cons.prems by (auto simp: AList.dom_update)
  ultimately show ?case
    using Cons.IH [of "AList.update k v d"] x by (simp add: dict_update_Cons)
qed

lemma map_of_dict_update: "map_of (dict_update d xs) = map_of d ++ map_of (rev xs)"
proof (induction xs arbitrary: d)
  case Nil
  then show ?case by simp
next
  case (Cons x xs)
  obtain k v where x: "x = (k, v)" by (cases x)
  have "map_of (dict_update (AList.update k v d) xs) = (map_of d)(k \<mapsto> v) ++ map_of (rev xs)"
    by (simp only: Cons.IH AList.update_conv')
  also have "\<dots> = map_of d ++ map_of (rev xs @ [(k, v)])"
    by (rule ext) (simp add: map_add_def split: option.splits)
  finally show ?case by (simp add: x dict_update_Cons)
qed

lemma dict_update_idem:
  assumes "distinct (map fst d)"
  shows "dict_update (dict_update d xs) xs = dict_update d xs"
proof (rule alist_eqI [symmetric])
  show "distinct (map fst (dict_update d xs))"
    using assms by (rule distinct_dict_update)
  show "map fst (dict_update d xs) = map fst (dict_update (dict_update d xs) xs)"
    by (simp add: keys_dict_update_present dom_dict_update)
  show "map_of (dict_update d xs) = map_of (dict_update (dict_update d xs) xs)"
    unfolding map_of_dict_update by (rule ext) (simp add: map_add_def split: option.splits)
qed

lemma dict_update_from_Nil: "distinct (map fst p) \<Longrightarrow> dict_update [] p = p"
proof -
  assume d: "distinct (map fst p)"
  have "dict_update acc p = acc @ p" if "distinct (map fst (acc @ p))" for acc
    using that
  proof (induction p arbitrary: acc)
    case Nil
    then show ?case by simp
  next
    case (Cons x p)
    obtain k v where x: "x = (k, v)" by (cases x)
    have "k \<notin> fst ` set acc" using Cons.prems x by auto
    then have "AList.update k v acc = acc @ [(k, v)]"
      by (induction acc) auto
    then show ?case
      using Cons.IH [of "acc @ [(k, v)]"] Cons.prems x by (simp add: dict_update_Cons)
  qed
  from this [of "[]"] d show ?thesis by simp
qed

lemma topic_items_simps [simp]:
  "topic_items t [] = []"
  "topic_items t (e # E) = (if fst e = t then snd e @ topic_items t E else topic_items t E)"
  by (simp_all add: topic_items_def)

lemma topic_items_absent: "t \<notin> fst ` set E \<Longrightarrow> topic_items t E = []"
  by (induction E) auto

lemma topic_items_member: "e \<in> set E \<Longrightarrow> set (snd e) \<subseteq> set (topic_items (fst e) E)"
  by (induction E) auto

lemma fold_concat: "fold (\<lambda>xs st. fold f xs st) xss st = fold f (concat xss) st"
  by (induction xss arbitrary: st) simp_all

lemma merge_batch_items:
  "merge_batch ce B st = fold (merge_keyword ce) (batch_items B) st"
  by (simp add: merge_batch_def batch_items_def fold_concat)

lemma fst_merge_keyword: "fst (merge_keyword False e st) = store_step e (fst st)"
  by (cases e; cases st) (auto simp: store_step_def Let_def split: option.splits)

lemma fst_fold_merge_keyword:
  "fst (fold (merge_keyword False) E st) = fold store_step E (fst st)"
  by (induction E arbitrary: st) (simp_all add: fst_merge_keyword)

lemma dom_store_step: "fst ` set (store_step e J) = insert (fst e) (fst ` set J)"
  by (auto simp: store_step_def AList.dom_update split: option.splits)

lemma distinct_store_step: "distinct (map fst J) \<Longrightarrow> distinct (map fst (store_step e J))"
  by (simp add: store_step_def AList.distinct_update split: option.splits)

lemma keys_store_step_present: "fst e \<in> fst ` set J \<Longrightarrow> map fst (store_step e J) = map fst J"
  by (simp add: store_step_def update_keys_present split: option.splits)

lemma dom_fold_store_step: "fst ` set (fold store_step E J) = fst ` set J \<union> fst ` set E"
  by (induction E arbitrary: J) (auto simp: dom_store_step)

lemma distinct_fold_store_step:
  "distinct (map fst J) \<Longrightarrow> distinct (map fst (fold store_step E J))"
  by (induction E arbitrary: J) (simp_all add: distinct_store_step)

lemma keys_fold_store_step_present:
  "fst ` set E \<subseteq> fst ` set J \<Longrightarrow> map fst (fold store_step E J) = map fst J"
proof (induction E arbitrary: J)
  case Nil
  then show ?case by simp
next
  case (Cons e E)
  have "map fst (store_step e J) = map fst J"
    using Cons.prems by (simp add: keys_store_step_present)
  moreover have "fst ` set E \<subseteq> fst ` set (store_step e J)"
    using Cons.prems by (auto simp: dom_store_step)
  ultimately show ?case using Cons.IH [of "store_step e J"] by simp
qed

lemma set_store_step: "set (store_step e J) \<subseteq> set J \<union> {x. fst x = fst e}"
proof -
  have "set (AList.update k v J) \<subseteq> set J \<union> {x. fst x = k}" for k and v :: papers
    by (induction J) auto
  then show ?thesis by (auto simp: store_step_def split: option.splits)
qed

lemma set_fold_store_step: "set (fold store_step E J) \<subseteq> set J \<union> {x. fst x \<in> fst ` set E}"
proof (induction E arbitrary: J)
  case Nil
  then show ?case by simp
next
  case (Cons e E)
  show ?case
    using Cons.IH [of "store_step e J"] set_store_step [of e J] by auto
qed

lemma entries_of_store_step:
  assumes "distinct (map fst (snd e))"
  shows "map_of (store_step e J) t =
         (if fst e = t then Some (dict_update (entries_of J t) (snd e)) else map_of J t)"
  using assms
  by (auto simp: store_step_def entries_of_def AList.update_conv' dict_update_from_Nil
      split: option.splits)

lemma map_of_fold_store_step:
  assumes "list_all (\<lambda>e. distinct (map fst (snd e))) E"
  shows "map_of (fold store_step E J) t =
         (if t \<in> fst ` set E then Some (dict_update (entries_of J t) (topic_items t E))
          else map_of J t)"
  using assms
proof (induction E arbitrary: J)
  case Nil
  then show ?case by simp
next
  case (Cons e E)
  then have d: "distinct (map fst (snd e))" and rest: "list_all (\<lambda>e. distinct (map fst (snd e))) E"
    by simp_all
  note step = entries_of_store_step [OF d, of J t]
  show ?case
  proof (cases "fst e = t")
    case True
    then have e: "entries_of (store_step e J) t = dict_update (entries_of J t) (snd e)"
      using step by (simp add: entries_of_def)
    show ?thesis
      using Cons.IH [OF rest, of "store_step e J"] True e step
      by (simp add: dict_update_append topic_items_absent)
  next
    case False
    then have "entries_of (store_step e J) t = entries_of J t"
      using step by (simp add: entries_of_def)
    then show ?thesis
      using Cons.IH [OF rest, of "store_step e J"] False step by auto
  qed
qed

lemma fold_store_step_idem:
  assumes "distinct (map fst J)" "fst ` set E \<subseteq> fst ` set J"
    and "list_all (\<lambda>e. distinct (map fst (snd e))) E"
    and "\<And>t. t \<in> fst ` set E \<Longrightarrow>
           \<exists>q. distinct (map fst q) \<and> map_of J t = Some (dict_update q (topic_items t E))"
  shows "fold store_step E J = J"
proof (rule alist_eqI [symmetric])
  show "distinct (map fst J)" by fact
  show "map fst J = map fst (fold store_step E J)"
    using assms(2) by (simp add: keys_fold_store_step_present)
  show "map_of J = map_of (fold store_step E J)"
  proof (rule ext)
    fix t
    show "map_of J t = map_of (fold store_step E J) t"
    proof (cases "t \<in> fst ` set E")
      case True
      then obtain q where q: "distinct (map fst q)"
        "map_of J t = Some (dict_update q (topic_items t E))"
        using assms(4) by blast
      then show ?thesis
        using True by (simp add: map_of_fold_store_step [OF assms(3)] entries_of_def dict_update_idem)
    next
      case False
      then show ?thesis by (simp add: map_of_fold_store_step [OF assms(3)])
    qed
  qed
qed

lemma no_additions:
  assumes "\<And>e. e \<in> set R \<Longrightarrow> \<exists>q. map_of J (fst e) = Some q \<and> fst ` set (snd e) \<subseteq> fst ` set q"
    and "set E \<subseteq> set R"
  shows "snd (snd (fold (merge_keyword False) E (J, n, c))) = c"
  using assms
proof (induction E arbitrary: J n c)
  case Nil
  then show ?case by simp
next
  case (Cons e E)
  obtain t p where e: "e = (t, p)" by (cases e)
  have "e \<in> set R" using Cons.prems(2) by simp
  from Cons.prems(1) [OF this]
  obtain q where q: "map_of J t = Some q" "fst ` set p \<subseteq> fst ` set q"
    unfolding e fst_conv snd_conv by blast
  have keys: "map fst (dict_update q p) = map fst q"
    using q(2) by (rule keys_dict_update_present)
  have "length (map fst (dict_update q p)) = length (map fst q)"
    by (simp only: keys)
  then have l: "length (dict_update q p) = length q"
    by simp
  have step: "merge_keyword False e (J, n, c) =
      (AList.update t (dict_update q p) J, n + len p, c)"
    unfolding e by (simp add: q(1) Let_def len_def l)
  have "snd (snd (fold (merge_keyword False) E (AList.update t (dict_update q p) J, n + len p, c))) = c"
  proof (rule Cons.IH)
    show "set E \<subseteq> set R" using Cons.prems(2) by simp
  next
    fix e' assume r: "e' \<in> set R"
    from Cons.prems(1) [OF r]
    obtain q0 where q0: "map_of J (fst e') = Some q0" "fst ` set (snd e') \<subseteq> fst ` set q0"
      by blast
    show "\<exists>q'. map_of (AList.update t (dict_update q p) J) (fst e') = Some q' \<and>
      fst ` set (snd e') \<subseteq> fst ` set q'"
    proof (cases "fst e' = t")
      case True
      then have "q0 = q" using q0(1) q(1) by simp
      then have "fst ` set (snd e') \<subseteq> fst ` set (dict_update q p)"
        using q0(2) unfolding dom_dict_update by blast
      then show ?thesis using True by (simp add: AList.update_conv')
    next
      case False
      then show ?thesis using q0 by (simp add: AList.update_conv')
    qed
  qed
  then show ?case
    by (simp only: fold_simps step)
qed

lemma remove_keywords_filter:
  assumes "distinct ks" "set ks \<subseteq> fst ` set J"
  shows "\<exists>removed'. remove_keywords ks J removed =
           Inr (filter (\<lambda>(t, ps). t \<notin> set ks) J, removed')"
  using assms
proof (induction ks arbitrary: J removed)
  case Nil
  then show ?case by simp
next
  case (Cons k ks)
  have "k \<in> fst ` set J" using Cons.prems(2) by simp
  then obtain ps where ps: "map_of J k = Some ps"
    by (cases "map_of J k") (auto simp: map_of_eq_None_iff)
  have "set (map fst (AList.delete k J)) = set (map fst J) - {k}"
    by (simp only: AList.delete_keys set_removeAll)
  then have "set ks \<subseteq> fst ` set (AList.delete k J)"
    using Cons.prems by auto
  then obtain removed' where
    "remove_keywords ks (AList.delete k J) (AList.update k (len ps) removed) =
     Inr (filter (\<lambda>(t, ps). t \<notin> set ks) (AList.delete k J), removed')"
    using Cons.IH [of "AList.delete k J"] Cons.prems(1) by auto
  moreover have "filter (\<lambda>(t, ps). t \<notin> set ks) (AList.delete k J) =
                 filter (\<lambda>(t, ps). t \<notin> set (k # ks)) J"
    by (induction J) auto
  ultimately show ?case using ps by simp
qed

lemma remove_old_keywords_restrict:
  assumes "distinct (map fst J)"
  shows "\<exists>removed. remove_old_keywords J kw = Inr (AList.restrict (fst ` set kw) J, removed)"
proof -
  let ?ks = "filter (\<lambda>k. k \<notin> set (map fst kw)) (map fst J)"
  have "distinct ?ks" "set ?ks \<subseteq> fst ` set J"
    using assms by auto
  then obtain removed where
    "remove_keywords ?ks J [] = Inr (filter (\<lambda>(t, ps). t \<notin> set ?ks) J, removed)"
    using remove_keywords_filter by blast
  moreover have "filter (\<lambda>(t, ps). t \<notin> set ?ks) J = AList.restrict (fst ` set kw) J"
    unfolding AList.restrict_eq
  proof (rule filter_cong [OF refl])
    fix x assume "x \<in> set J"
    then have "fst x \<in> fst ` set J" by simp
    then show "(case x of (t, ps) \<Rightarrow> t \<notin> set ?ks) = (case x of (k, v) \<Rightarrow> k \<in> fst ` set kw)"
      by (cases x) auto
  qed
  ultimately show ?thesis
    by (simp add: remove_old_keywords_def Let_def)
qed

lemma count_papers_Cons: "count_papers ((t, ps) # m) = len ps + count_papers m"
  by (simp add: count_papers_def)

lemma count_papers_nonneg: "0 \<le> count_papers m"
  by (induction m) (auto simp: count_papers_def len_def)

lemma count_papers_zero:
  assumes "count_papers m = 0" "(t, ps) \<in> set m"
  shows "ps = []"
  using assms
proof (induction m)
  case Nil
  then show ?case by simp
next
  case (Cons x m)
  obtain t' ps' where x: "x = (t', ps')" by (cases x)
  have "len ps' + count_papers m = 0"
    using Cons.prems(1) x by (simp add: count_papers_Cons)
  moreover have "0 \<le> len ps'" by (simp add: len_def)
  ultimately have "len ps' = 0" "count_papers m = 0"
    using count_papers_nonneg [of m] by linarith+
  then show ?case
    using Cons.IH Cons.prems(2) x by (auto simp: len_def)
qed

lemma count_papers_restrict:
  assumes "\<And>t ps. (t, ps) \<in> set J \<Longrightarrow> t \<notin> K \<Longrightarrow> ps = []"
  shows "count_papers (AList.restrict K J) = count_papers J"
  using assms
proof (induction J)
  case Nil
  then show ?case by simp
next
  case (Cons x J)
  obtain t ps where x: "x = (t, ps)" by (cases x)
  have ih: "count_papers (AList.restrict K J) = count_papers J"
    using Cons by auto
  show ?case
  proof (cases "t \<in> K")
    case True
    then show ?thesis using ih x by (simp add: count_papers_Cons)
  next
    case False
    then have "ps = []" using Cons.prems [of t ps] x by simp
    then show ?thesis using ih x False by (simp add: count_papers_Cons len_def)
  qed
qed

lemma entries_of_restrict:
  assumes "\<And>t ps. (t, ps) \<in> set J \<Longrightarrow> t \<notin> K \<Longrightarrow> ps = []"
  shows "entries_of (AList.restrict K J) t = entries_of J t"
proof (cases "t \<in> K")
  case True
  then show ?thesis by (simp add: entries_of_def AList.restr_conv')
next
  case False
  have "ps = []" if "map_of J t = Some ps" for ps
    using assms [OF map_of_SomeD [OF that] False] .
  then show ?thesis using False
    by (auto simp: entries_of_def AList.restr_conv' split: option.splits)
qed

lemma update_json_file_run:
  assumes "fs filename = Some (Json m)" "distinct (map fst m)"
  shows "update_json_file fs filename B kw False =
         Inr ((count_papers m,
               count_papers (fst (fold (merge_keyword False) (batch_items B)
                 (if count_papers m > 0 then AList.restrict (fst ` set kw) m else m, 0, []))),
               fst (snd (fold (merge_keyword False) (batch_items B)
                 (if count_papers m > 0 then AList.restrict (fst ` set kw) m else m, 0, []))),
               snd (snd (fold (merge_keyword False) (batch_items B)
                 (if count_papers m > 0 then AList.restrict (fst ` set kw) m else m, 0, [])))),
              fs(filename \<mapsto> Json (fst (fold (merge_keyword False) (batch_items B)
                 (if count_papers m > 0 then AList.restrict (fst ` set kw) m else m, 0, [])))))"
proof -
  obtain removed where
    r: "remove_old_keywords m kw = Inr (AList.restrict (fst ` set kw) m, removed)"
    using remove_old_keywords_restrict [OF assms(2)] by blast
  show ?thesis
    by (simp add: update_json_file_def assms(1) r merge_batch_items split: prod.splits)
qed

lemma wf_store_entries: "wf_store m \<Longrightarrow> distinct (map fst (entries_of m t))"
proof -
  assume w: "wf_store m"
  show ?thesis
  proof (cases "map_of m t")
    case None
    then show ?thesis by (simp add: entries_of_def)
  next
    case (Some ps)
    then have "(t, ps) \<in> set m" by (rule map_of_SomeD)
    then have "distinct (map fst ps)"
      using w by (auto simp: wf_store_def list_all_iff)
    then show ?thesis using Some by (simp add: entries_of_def)
  qed
qed

lemma wf_store_restrict: "wf_store m \<Longrightarrow> wf_store (AList.restrict K m)"
proof -
  assume w: "wf_store m"
  have "set (AList.restrict K m) \<subseteq> set m"
    by (auto simp: AList.restrict_eq)
  then have "list_all (\<lambda>(topic, papers). distinct (map fst papers)) (AList.restrict K m)"
    using w unfolding wf_store_def list_all_iff by blast
  then show ?thesis
    using w by (simp add: wf_store_def AList.distinct_restr)
qed

lemma wf_batch_items:
  "list_all wf_store B \<Longrightarrow> list_all (\<lambda>e. distinct (map fst (snd e))) (batch_items B)"
  unfolding batch_items_def wf_store_def list_all_iff by fastforce

lemma merge_twice_json:
  assumes stored: "fs filename = Some (Json S)" and wfS: "wf_store S"
    and wfB: "list_all wf_store data_dict"
    and topics: "fst ` set (batch_items data_dict) \<subseteq> fst ` set current_keywords"
  shows "\<exists>e1 u n1 c1 S1 n2 S2.
           update_json_file fs filename data_dict current_keywords False =
             Inr ((e1, u, n1, c1), fs(filename \<mapsto> Json S1)) \<and>
           update_json_file (fs(filename \<mapsto> Json S1)) filename data_dict current_keywords False =
             Inr ((u, u, n2, []), fs(filename \<mapsto> Json S2)) \<and>
           (\<forall>topic. entries_of S2 topic = entries_of S1 topic)"
proof -
  define K where "K = fst ` set current_keywords"
  define E where "E = batch_items data_dict"
  define J0 where "J0 = (if count_papers S > 0 then AList.restrict K S else S)"
  define r1 where "r1 = fold (merge_keyword False) E (J0, 0, [])"
  define J1 where "J1 = fst r1"
  define J0' where "J0' = (if count_papers J1 > 0 then AList.restrict K J1 else J1)"
  define r2 where "r2 = fold (merge_keyword False) E (J0', 0, [])"
  have dE: "list_all (\<lambda>e. distinct (map fst (snd e))) E"
    unfolding E_def using wfB by (rule wf_batch_items)
  have EK: "fst ` set E \<subseteq> K"
    using topics by (simp add: E_def K_def)
  have wf0: "wf_store J0"
    using wfS by (simp add: J0_def wf_store_restrict)
  then have d0: "distinct (map fst J0)" by (simp add: wf_store_def)
  have J1: "J1 = fold store_step E J0"
    by (simp add: J1_def r1_def fst_fold_merge_keyword)
  have d1: "distinct (map fst J1)"
    unfolding J1 using d0 by (rule distinct_fold_store_step)
  have m1: "map_of J1 t = Some (dict_update (entries_of J0 t) (topic_items t E))"
    if "t \<in> fst ` set E" for t
    using that by (simp add: J1 map_of_fold_store_step [OF dE])
  have stale: "ps = []" if "(t, ps) \<in> set J1" "t \<notin> K" for t ps
  proof -
    have "(t, ps) \<in> set J0 \<union> {x. fst x \<in> fst ` set E}"
      using that(1) set_fold_store_step [of E J0] unfolding J1 by blast
    moreover have "(t, ps) \<notin> {x. fst x \<in> fst ` set E}"
      using that(2) EK by auto
    ultimately have "(t, ps) \<in> set J0" by blast
    moreover from this have "count_papers S = 0"
      using that(2) count_papers_nonneg [of S]
      by (auto simp: J0_def AList.restrict_eq split: if_splits)
    ultimately show ?thesis
      using count_papers_zero [of S t ps] by (simp add: J0_def)
  qed
  have run1: "update_json_file fs filename data_dict current_keywords False =
      Inr ((count_papers S, count_papers J1, fst (snd r1), snd (snd r1)), fs(filename \<mapsto> Json J1))"
    using update_json_file_run [of fs filename S data_dict current_keywords] stored wfS
    by (simp add: wf_store_def J1_def r1_def J0_def K_def E_def)
  have d0': "distinct (map fst J0')"
    using d1 by (simp add: J0'_def AList.distinct_restr)
  have sub0': "fst ` set E \<subseteq> fst ` set J0'"
  proof -
    have "fst ` set E \<subseteq> fst ` set J1"
      unfolding J1 by (simp add: dom_fold_store_step)
    then show ?thesis using EK by (auto simp: J0'_def)
  qed
  have m0': "map_of J0' t = Some (dict_update (entries_of J0 t) (topic_items t E))"
    if "t \<in> fst ` set E" for t
  proof -
    have "t \<in> K" using that EK by auto
    then have "map_of J0' t = map_of J1 t"
      by (simp add: J0'_def AList.restr_conv')
    then show ?thesis using m1 [OF that] by simp
  qed
  have J2: "fst r2 = J0'"
  proof -
    have "fold store_step E J0' = J0'"
    proof (rule fold_store_step_idem [OF d0' sub0' dE])
      fix t assume "t \<in> fst ` set E"
      then show "\<exists>q. distinct (map fst q) \<and> map_of J0' t = Some (dict_update q (topic_items t E))"
        using m0' wf_store_entries [OF wf0, of t] by blast
    qed
    then show ?thesis by (simp add: r2_def fst_fold_merge_keyword)
  qed
  have c2: "snd (snd r2) = []"
    unfolding r2_def
  proof (rule no_additions [where R = E])
    show "set E \<subseteq> set E" by simp
  next
    fix e assume e: "e \<in> set E"
    then have "fst e \<in> fst ` set E" by simp
    then have "map_of J0' (fst e) = Some (dict_update (entries_of J0 (fst e)) (topic_items (fst e) E))"
      by (rule m0')
    moreover have "fst ` set (snd e) \<subseteq>
        fst ` set (dict_update (entries_of J0 (fst e)) (topic_items (fst e) E))"
      using topic_items_member [OF e] unfolding dom_dict_update by blast
    ultimately show "\<exists>q. map_of J0' (fst e) = Some q \<and> fst ` set (snd e) \<subseteq> fst ` set q"
      by blast
  qed
  have cnt: "count_papers J0' = count_papers J1"
    using stale by (simp add: J0'_def count_papers_restrict)
  have ent: "entries_of J0' t = entries_of J1 t" for t
    using stale by (simp add: J0'_def entries_of_restrict)
  have pre: "(fs(filename \<mapsto> Json J1)) filename = Some (Json J1)" by simp
  have "update_json_file (fs(filename \<mapsto> Json J1)) filename data_dict current_keywords False =
      Inr ((count_papers J1, count_papers (fst r2), fst (snd r2), snd (snd r2)),
           (fs(filename \<mapsto> Json J1))(filename \<mapsto> Json (fst r2)))"
    using update_json_file_run [of "fs(filename \<mapsto> Json J1)" filename J1 data_dict
        current_keywords, OF pre d1]
    unfolding r2_def J0'_def K_def E_def .
  then have run2: "update_json_file (fs(filename \<mapsto> Json J1)) filename data_dict current_keywords
      False = Inr ((count_papers J1, count_papers J1, fst (snd r2), []), fs(filename \<mapsto> Json J0'))"
    by (simp add: J2 c2 cnt)
  show ?thesis
    using run1 run2 ent by blast
qed

text \<open>
  C1, amended: let the file hold a store \<open>S\<close> (an empty file is the empty store),
  let the store and every element of the fetched batch be dicts of dicts (no key twice),
  and let every topic of the batch be a
  configured topic, as it is when the orchestrator fetches one element per configured
  topic. Then \<open>update_json_file\<close> without \<open>clear_existing\<close> succeeds, and a second run
  with the same batch on the file it wrote succeeds too, finds as many entries as the
  first run left (\<open>u\<close>) and leaves as many, reports no addition for any topic
  (\<open>category_updates\<close> is empty), and leaves every topic with the same entries, in the
  same order and with the same rows. (A topic that is not configured and has no entries
  can be dropped from the store by the second run; it has no entries before or after.)
\<close>

theorem merge_idempotent:
  assumes stored: "fs filename = Some (Json S) \<or> fs filename = Some Empty_File \<and> S = []"
    and wfS: "wf_store S"
    and wfB: "list_all wf_store data_dict"
    and topics: "fst ` set (batch_items data_dict) \<subseteq> fst ` set current_keywords"
  shows "\<exists>e1 u n1 c1 S1 n2 S2.
           update_json_file fs filename data_dict current_keywords False =
             Inr ((e1, u, n1, c1), fs(filename \<mapsto> Json S1)) \<and>
           update_json_file (fs(filename \<mapsto> Json S1)) filename data_dict current_keywords False =
             Inr ((u, u, n2, []), fs(filename \<mapsto> Json S2)) \<and>
           (\<forall>topic. entries_of S2 topic = entries_of S1 topic)"
  using stored
proof
  assume "fs filename = Some (Json S)"
  then show ?thesis
    using wfS wfB topics by (rule merge_twice_json)
next
  assume e: "fs filename = Some Empty_File \<and> S = []"
  let ?fs = "fs(filename \<mapsto> Json S)"
  have same: "update_json_file fs filename data_dict current_keywords False =
              update_json_file ?fs filename data_dict current_keywords False"
    using e update_json_file_empty_file [of fs filename data_dict current_keywords] by simp
  have "?fs filename = Some (Json S)" by simp
  from merge_twice_json [of ?fs filename S data_dict current_keywords, OF this wfS wfB topics]
  show ?thesis
    unfolding same by simp
qed

text \<open>
  C1, as stated: for every store and batch, a second run with the same batch reports no
  additions. \<open>update_json_file\<close> first drops the topics that are not configured; when
  the batch has such a topic, each run drops it from the store and merges it back as a
  new topic, so the second run reports its entries as additions again (the store itself
  is the same after both runs).
\<close>

theorem merge_unconfigured_topic:
  "update_json_file [''docs/arxiv.json'' \<mapsto> Json []] ''docs/arxiv.json'' slam_batch
     [(''NeRF'', ''nerf'')] False =
   Inr ((0, 1, 1, [(''SLAM'', 1)]), [''docs/arxiv.json'' \<mapsto> Json slam_store]) \<and>
   update_json_file [''docs/arxiv.json'' \<mapsto> Json slam_store] ''docs/arxiv.json'' slam_batch
     [(''NeRF'', ''nerf'')] False =
   Inr ((1, 1, 1, [(''SLAM'', 1)]), [''docs/arxiv.json'' \<mapsto> Json slam_store])"
  by (simp add: update_json_file_def remove_old_keywords_def merge_batch_def count_papers_def
      len_def slam_batch_def slam_store_def)

lemma first_run_value:
  "update_json_file [''docs/arxiv.json'' \<mapsto> Json retention_store] ''docs/arxiv.json'' slam_batch
     two_topics False =
   Inr ((4, 5, 1, [(''SLAM'', 1)]), [''docs/arxiv.json'' \<mapsto> Json merged_store])"
  by (simp add: update_json_file_def remove_old_keywords_def merge_batch_def count_papers_def
      len_def slam_batch_def retention_store_def two_topics_def merged_store_def dict_update_def)

text \<open>
  The amended claim at \<open>retention_store\<close> and \<open>slam_batch\<close>: the first run adds one entry,
  the second run finds 5 entries, leaves 5 and reports no addition.
\<close>

theorem merge_idempotent_example:
  "\<exists>n2 S2.
     update_json_file [''docs/arxiv.json'' \<mapsto> Json merged_store] ''docs/arxiv.json'' slam_batch
       two_topics False =
     Inr ((5, 5, n2, []), [''docs/arxiv.json'' \<mapsto> Json S2]) \<and>
     entries_of S2 ''SLAM'' = entries_of merged_store ''SLAM'' \<and>
     entries_of S2 ''NeRF'' = entries_of merged_store ''NeRF''"
proof -
  let ?fs = "[''docs/arxiv.json'' \<mapsto> Json retention_store]"
  have h: "?fs ''docs/arxiv.json'' = Some (Json retention_store)" "list_all wf_store slam_batch"
    "fst ` set (batch_items slam_batch) \<subseteq> fst ` set two_topics"
    by (simp_all add: slam_batch_def wf_store_def batch_items_def two_topics_def)
  from merge_idempotent [of ?fs "''docs/arxiv.json''" retention_store slam_batch two_topics,
      OF disjI1 [OF h(1)] wf_retention_store h(2,3)]
  obtain e1 u n1 c1 S1 n2 S2 where
    r1: "update_json_file ?fs ''docs/arxiv.json'' slam_batch two_topics False =
         Inr ((e1, u, n1, c1), ?fs(''docs/arxiv.json'' \<mapsto> Json S1))"
    and r2: "update_json_file (?fs(''docs/arxiv.json'' \<mapsto> Json S1)) ''docs/arxiv.json'' slam_batch
         two_topics False = Inr ((u, u, n2, []), ?fs(''docs/arxiv.json'' \<mapsto> Json S2))"
    and e: "\<forall>topic. entries_of S2 topic = entries_of S1 topic"
    by blast
  have "Inr ((e1, u, n1, c1), ?fs(''docs/arxiv.json'' \<mapsto> Json S1)) =
        (Inr ((4, 5, 1, [(''SLAM'', 1)]), [''docs/arxiv.json'' \<mapsto> Json merged_store])
          :: error + ((int \<times> int \<times> int \<times> (string \<times> int) list) \<times> files))"
    using r1 first_run_value by simp
  then have "u = 5" and "[''docs/arxiv.json'' \<mapsto> Json S1] = [''docs/arxiv.json'' \<mapsto> Json merged_store]"
    by simp_all
  then have "u = 5" "S1 = merged_store"
    using map_upd_eqD1 [of Map.empty "''docs/arxiv.json''" "Json S1" Map.empty "Json merged_store"]
    by simp_all
  then show ?thesis
    using r2 e by auto
qed

end
